theory Spec2Isabelle
  imports Complex_Main "HOL-Library.Word" "HOL-Library.Multiset"
begin

text \<open>
  A shallow embedding of the video editor server. The repository holds two route modules:
  the queue-based one (job queue, low-resource encoding options, used with the server
  file that sweeps old files) and the legacy one \<open>routes/video.js\<close> (no queue). Unless a
  definition says \<open>legacy\<close>, it embeds the queue-based module.
\<close>

section \<open>Strings, numbers and values of the host language\<close>

text \<open>
  A string is a sequence of 16-bit code units. \<open>u16\<close> embeds an ASCII literal.
  A number is either a value or \<open>NaN\<close>; integers stand for the integral numbers below
  \<open>2\<^sup>5\<^sup>3\<close>, which the host represents exactly, and reals for the others (rounding and
  the infinities are not modelled).
\<close>

type_synonym ustring = "16 word list"

definition u16 :: "string \<Rightarrow> ustring" where
  "u16 s = map of_char s"

abbreviation BACKSLASH :: "16 word" where "BACKSLASH \<equiv> 0x5C"
abbreviation QUOTE :: "16 word" where "QUOTE \<equiv> 0x27"
abbreviation COLON :: "16 word" where "COLON \<equiv> 0x3A"
abbreviation SEMICOLON :: "16 word" where "SEMICOLON \<equiv> 0x3B"
abbreviation PERCENT :: "16 word" where "PERCENT \<equiv> 0x25"
abbreviation LBRACKET :: "16 word" where "LBRACKET \<equiv> 0x5B"
abbreviation RBRACKET :: "16 word" where "RBRACKET \<equiv> 0x5D"
abbreviation RSQUO :: "16 word" where "RSQUO \<equiv> 0x2019"
abbreviation DASH :: "16 word" where "DASH \<equiv> 0x2D"
abbreviation PLUS :: "16 word" where "PLUS \<equiv> 0x2B"
abbreviation SLASH :: "16 word" where "SLASH \<equiv> 0x2F"

datatype 'a jsnum = Num 'a | NaN

fun js_add :: "('a::plus) jsnum \<Rightarrow> 'a jsnum \<Rightarrow> 'a jsnum" where
  "js_add (Num a) (Num b) = Num (a + b)"
| "js_add _ _ = NaN"

fun js_sub :: "('a::minus) jsnum \<Rightarrow> 'a jsnum \<Rightarrow> 'a jsnum" where
  "js_sub (Num a) (Num b) = Num (a - b)"
| "js_sub _ _ = NaN"

fun Math_max :: "real jsnum \<Rightarrow> real jsnum \<Rightarrow> real jsnum" where
  "Math_max (Num a) (Num b) = Num (max a b)"
| "Math_max _ _ = NaN"

text \<open>
  The values a field of a JSON request body or of the probe's metadata can hold here:
  absent, a number or a string. \<open>truthy\<close> is the test of \<open>if (v)\<close>, \<open>!v\<close> and \<open>v || w\<close>.
\<close>

datatype jsval = Undefined | NumV "real jsnum" | StrV ustring

fun truthy :: "jsval \<Rightarrow> bool" where
  "truthy Undefined = False"
| "truthy (NumV NaN) = False"
| "truthy (NumV (Num r)) = (r \<noteq> 0)"
| "truthy (StrV s) = (s \<noteq> [])"

text \<open>
  \<open>parseFloat\<close> gives a number back as it is; what it reads from a string is the
  platform's business and is the parameter \<open>pf\<close>. \<open>or_zero\<close> is \<open>parseFloat(v) || 0\<close>.
\<close>

fun parseFloat :: "(ustring \<Rightarrow> real jsnum) \<Rightarrow> jsval \<Rightarrow> real jsnum" where
  "parseFloat pf Undefined = NaN"
| "parseFloat pf (NumV n) = n"
| "parseFloat pf (StrV s) = pf s"

fun or_zero :: "real jsnum \<Rightarrow> real" where
  "or_zero NaN = 0"
| "or_zero (Num r) = r"

text \<open>A string field that is present and not empty, as \<open>!filename\<close> tests it.\<close>

definition present :: "ustring option \<Rightarrow> bool" where
  "present v \<longleftrightarrow> v \<noteq> None \<and> v \<noteq> Some []"

text \<open>\<open>s.replace(/c/g, r)\<close> for a pattern of one character and a replacement without \<open>$\<close>.\<close>

definition replace_all :: "16 word \<Rightarrow> ustring \<Rightarrow> ustring \<Rightarrow> ustring" where
  "replace_all c r s = concat (map (\<lambda>x. if x = c then r else [x]) s)"

text \<open>\<open>s.replace(/pat/, rep)\<close> for a literal pattern: the leftmost occurrence only.\<close>

fun replace_first :: "ustring \<Rightarrow> ustring \<Rightarrow> ustring \<Rightarrow> ustring" where
  "replace_first pat rep [] = (if pat = [] then rep else [])"
| "replace_first pat rep (c # cs) =
     (if take (length pat) (c # cs) = pat then rep @ drop (length pat) (c # cs)
      else c # replace_first pat rep cs)"

text \<open>\<open>s.split(c)\<close>: always at least one part.\<close>

fun split_on :: "16 word \<Rightarrow> ustring \<Rightarrow> ustring list" where
  "split_on c [] = [[]]"
| "split_on c (x # xs) =
     (if x = c then [] # split_on c xs
      else (case split_on c xs of [] \<Rightarrow> [[x]] | p # ps \<Rightarrow> (x # p) # ps))"

text \<open>
  \<open>parseInt(str, 10)\<close>: leading white space is skipped, one sign is read, then the longest
  run of decimal digits; no digit gives \<open>NaN\<close>.
\<close>

definition is_white :: "16 word \<Rightarrow> bool" where
  "is_white c \<longleftrightarrow>
     c \<in> {0x09, 0x0A, 0x0B, 0x0C, 0x0D, 0x20, 0xA0, 0x1680, 0x2028, 0x2029, 0x202F, 0x205F,
          0x3000, 0xFEFF} \<or> (0x2000 \<le> c \<and> c \<le> 0x200A)"

definition is_digit :: "16 word \<Rightarrow> bool" where
  "is_digit c \<longleftrightarrow> 0x30 \<le> c \<and> c \<le> 0x39"

definition digit_val :: "16 word \<Rightarrow> int" where
  "digit_val c = int (unat c) - 48"

definition parseInt10 :: "ustring \<Rightarrow> int jsnum" where
  "parseInt10 str =
     (let s = dropWhile is_white str;
          sign = (case s of [] \<Rightarrow> 1 | c # cs \<Rightarrow> if c = DASH then - 1 else 1);
          s1 = (case s of [] \<Rightarrow> [] | c # cs \<Rightarrow> if c = DASH \<or> c = PLUS then cs else s);
          z = takeWhile is_digit s1
      in if z = [] then NaN
         else Num (sign * foldl (\<lambda>acc d. acc * 10 + digit_val d) 0 z))"

text \<open>The decimal numeral of a number, as a template literal renders it.\<close>

definition digit_char :: "nat \<Rightarrow> 16 word" where
  "digit_char d = of_nat (48 + d)"

fun dec :: "nat \<Rightarrow> ustring" where
  "dec n = (if n < 10 then [digit_char n] else dec (n div 10) @ [digit_char (n mod 10)])"

declare dec.simps [simp del]

fun show_num :: "int jsnum \<Rightarrow> ustring" where
  "show_num NaN = u16 ''NaN''"
| "show_num (Num i) = (if i < 0 then DASH # dec (nat (- i)) else dec (nat i))"

section \<open>The job admission queue\<close>

text \<open>
  The queue-based routes module keeps two module-level variables, the counter
  \<open>activeJobs\<close> and the array \<open>jobQueue\<close> of waiting \<open>run\<close> closures, and the constant
  \<open>MAX_CONCURRENT_JOBS = 1\<close>. Node runs every callback to its end before the next one
  starts, so the queue changes in two kinds of atomic turns only:
  \<^item> a handler calls \<open>enqueueJob(jobFn)\<close>;
  \<^item> the promise returned by \<open>jobFn()\<close> of a running job settles, which delivers the result
    to the caller (\<open>.then(resolve).catch(reject)\<close>) and runs the \<open>.finally\<close> callback.

  A job is identified by the number of its submission. Besides the two variables of the
  source, the state carries four observation fields that the code does not have:
  the jobs whose \<open>jobFn\<close> has been called and has not settled (\<open>pending\<close>), the order in which
  \<open>run\<close> was entered (\<open>started\<close>), the terminal transitions in the order they happened
  (\<open>finished\<close>) and every value that was ever written to \<open>activeJobs\<close> (\<open>counter_log\<close>).
  The ceiling is a parameter \<open>N\<close> of the model; the code is the instance
  \<open>N = MAX_CONCURRENT_JOBS\<close>.
\<close>

type_synonym job = nat

datatype settlement = Fulfilled | Rejected

record queue_state =
  activeJobs :: int
  jobQueue :: "job list"
  pending :: "job list"
  started :: "job list"
  finished :: "(job \<times> settlement) list"
  counter_log :: "int list"

definition MAX_CONCURRENT_JOBS :: int where
  "MAX_CONCURRENT_JOBS = 1"

definition init_queue :: queue_state where
  "init_queue = \<lparr>activeJobs = 0, jobQueue = [], pending = [], started = [],
                  finished = [], counter_log = [0]\<rparr>"

text \<open>\<open>run\<close>: \<open>activeJobs++\<close>, then \<open>jobFn()\<close> is called.\<close>

definition run :: "job \<Rightarrow> queue_state \<Rightarrow> queue_state" where
  "run j s = s\<lparr>activeJobs := activeJobs s + 1,
              counter_log := counter_log s @ [activeJobs s + 1],
              pending := pending s @ [j],
              started := started s @ [j]\<rparr>"

text \<open>\<open>enqueueJob\<close>: run at once below the ceiling, otherwise \<open>jobQueue.push(run)\<close>.\<close>

definition enqueueJob :: "int \<Rightarrow> job \<Rightarrow> queue_state \<Rightarrow> queue_state" where
  "enqueueJob N j s =
     (if activeJobs s < N then run j s else s\<lparr>jobQueue := jobQueue s @ [j]\<rparr>)"

text \<open>
  The \<open>.finally\<close> callback: \<open>activeJobs--\<close>, then, if \<open>jobQueue.length > 0\<close>,
  \<open>jobQueue.shift()\<close> is called as \<open>next()\<close>.
\<close>

definition finally_cb :: "queue_state \<Rightarrow> queue_state" where
  "finally_cb s =
     (let s1 = s\<lparr>activeJobs := activeJobs s - 1,
                 counter_log := counter_log s @ [activeJobs s - 1]\<rparr>
      in case jobQueue s1 of
           [] \<Rightarrow> s1
         | next # rest \<Rightarrow> run next (s1\<lparr>jobQueue := rest\<rparr>))"

text \<open>
  The promise of the pending job \<open>j\<close> settles with \<open>r\<close>: the caller of \<open>enqueueJob\<close> gets
  the result, then the \<open>.finally\<close> callback runs. \<open>.finally\<close> does not look at \<open>r\<close>.
\<close>

definition settle_now :: "job \<Rightarrow> settlement \<Rightarrow> queue_state \<Rightarrow> queue_state" where
  "settle_now j r s =
     finally_cb (s\<lparr>pending := remove1 j (pending s), finished := finished s @ [(j, r)]\<rparr>)"

definition settle :: "job \<Rightarrow> settlement \<Rightarrow> queue_state \<Rightarrow> queue_state option" where
  "settle j r s = (if j \<in> set (pending s) then Some (settle_now j r s) else None)"

datatype event = Submit job | Settle job settlement

fun step :: "int \<Rightarrow> event \<Rightarrow> queue_state \<Rightarrow> queue_state option" where
  "step N (Submit j) s = Some (enqueueJob N j s)"
| "step N (Settle j r) s = settle j r s"

fun exec :: "int \<Rightarrow> event list \<Rightarrow> queue_state \<Rightarrow> queue_state option" where
  "exec N [] s = Some s"
| "exec N (e # es) s = (case step N e s of None \<Rightarrow> None | Some s' \<Rightarrow> exec N es s')"

fun submitted :: "event list \<Rightarrow> job list" where
  "submitted [] = []"
| "submitted (Submit j # es) = j # submitted es"
| "submitted (Settle j r # es) = submitted es"

text \<open>
  Every running job settles at some time (the engine ends or reports an error).
  \<open>drain\<close> lets the pending jobs settle one after the other, oldest first, until none is
  pending.
\<close>

function drain :: "queue_state \<Rightarrow> queue_state" where
  "drain s = (case pending s of [] \<Rightarrow> s | j # _ \<Rightarrow> drain (settle_now j Fulfilled s))"
  by pat_completeness auto
termination
proof (relation "measure (\<lambda>s. length (pending s) + length (jobQueue s))")
  show "wf (measure (\<lambda>s. length (pending s) + length (jobQueue s)))"
    by simp
next
  fix s :: queue_state and j js
  assume "pending s = j # js"
  then show "(settle_now j Fulfilled s, s)
               \<in> measure (\<lambda>s. length (pending s) + length (jobQueue s))"
    by (simp add: settle_now_def finally_cb_def run_def Let_def split: list.splits)
qed

text \<open>The invariant of the queue under ceiling \<open>N\<close>.\<close>

definition queue_inv :: "int \<Rightarrow> queue_state \<Rightarrow> bool" where
  "queue_inv N s \<longleftrightarrow>
     activeJobs s = int (length (pending s)) \<and>
     activeJobs s \<le> N \<and>
     (jobQueue s \<noteq> [] \<longrightarrow> activeJobs s = N) \<and>
     list_all (\<lambda>v. v \<le> N) (counter_log s)"

text \<open>The engine signals either \<open>end\<close> or \<open>error\<close> to the job function of a route.\<close>

datatype engine_signal = End | Error

text \<open>
  Every job function of the queue-based module has the shape
  \<open>new Promise((resolve) => ... .on('end', () => { res.json(...); resolve(); })
  .on('error', (err) => { if (!res.headersSent) res.status(500).json(...); resolve(); })\<close>:
  both signals call \<open>resolve()\<close> (the trim handler says
  \<open>// resolve even on FFmpeg error so queue continues\<close>).
\<close>

fun jobFn_settlement :: "engine_signal \<Rightarrow> settlement" where
  "jobFn_settlement End = Fulfilled"
| "jobFn_settlement Error = Fulfilled"

definition jobs_of :: "queue_state \<Rightarrow> job multiset" where
  "jobs_of s = mset (map fst (finished s)) + mset (pending s) + mset (jobQueue s)"

definition demo_state :: queue_state where
  "demo_state = \<lparr>activeJobs = 1, jobQueue = [2], pending = [1], started = [0, 1],
                  finished = [(0, Fulfilled)], counter_log = [0, 1, 0, 1]\<rparr>"

definition demo_events :: "event list" where
  "demo_events = [Submit 0, Submit 1, Submit 2, Settle 0 Fulfilled]"

section \<open>The route handlers\<close>

text \<open>
  A handler either answers at once with a status or hands a job to \<open>enqueueJob\<close>; the
  answer of an admitted job comes from the job function when the engine signals.
  \<open>existsSync\<close> tells whether the named upload exists. The string fields of a request body
  are strings or absent.
\<close>

datatype jsprop = PropUndefined | PropString ustring | PropInherited

datatype job_spec =
    TrimJob real "real option"
  | FilterJob jsprop
  | TextJob ustring
  | MergeJob "ustring list"
  | ExtractJob
  | FadeOutJob "real jsnum"
  | MuteJob
  | VolumeJob jsval
  | FadeInJob

datatype handler_result = Respond nat | Enqueue job_spec

fun admit :: "int \<Rightarrow> job \<Rightarrow> handler_result \<Rightarrow> queue_state \<Rightarrow> queue_state" where
  "admit N j (Respond code) s = s"
| "admit N j (Enqueue spec) s = enqueueJob N j s"

subsection \<open>\<open>POST /trim\<close>\<close>

text \<open>
  \<open>duration = end > start ? end - start : 0\<close>. The job seeks to \<open>start\<close> (\<open>-ss\<close>) and gets the
  output option \<open>-t duration\<close> only \<open>if (duration > 0)\<close>: the second field of \<open>TrimJob\<close> is
  that option, \<open>None\<close> when it is not passed.
\<close>

definition trim_duration :: "real \<Rightarrow> real \<Rightarrow> real" where
  "trim_duration start end' = (if end' > start then end' - start else 0)"

definition post_trim ::
  "(ustring \<Rightarrow> bool) \<Rightarrow> (ustring \<Rightarrow> real jsnum) \<Rightarrow> ustring option \<Rightarrow> jsval \<Rightarrow> jsval
     \<Rightarrow> handler_result" where
  "post_trim existsSync pf filename startTime endTime =
     (if \<not> present filename then Respond 400
      else if \<not> existsSync (the filename) then Respond 404
      else
        (let start = or_zero (parseFloat pf startTime);
             end' = or_zero (parseFloat pf endTime);
             duration = trim_duration start end'
         in Enqueue (TrimJob start (if duration > 0 then Some duration else None))))"

text \<open>
  The legacy module, for numeric fields: \<open>setStartTime(startTime || 0)\<close> and
  \<open>if (endTime) cmd.setDuration(endTime - (startTime || 0))\<close>.
\<close>

definition legacy_trim_duration :: "real \<Rightarrow> real \<Rightarrow> real option" where
  "legacy_trim_duration startTime endTime =
     (if endTime \<noteq> 0 then Some (endTime - (if startTime \<noteq> 0 then startTime else 0))
      else None)"

subsection \<open>\<open>POST /filter\<close>\<close>

text \<open>
  \<open>filterMap\<close> is an object literal, so \<open>filterMap[filter]\<close> finds the twelve own keys and
  also the properties every object inherits from \<open>Object.prototype\<close>; an inherited
  property is a function or an object and passes the test \<open>if (!videoFilter)\<close>.
\<close>

definition filterMap :: "(string \<times> string) list" where
  "filterMap =
     [(''grayscale'', ''colorchannelmixer=.3:.4:.3:0:.3:.4:.3:0:.3:.4:.3''),
      (''sepia'', ''colorchannelmixer=.393:.769:.189:0:.349:.686:.168:0:.272:.534:.131''),
      (''blur'', ''boxblur=5:1''),
      (''sharpen'', ''unsharp=5:5:1.0:5:5:0.0''),
      (''brightness'', ''eq=brightness=0.15''),
      (''contrast'', ''eq=contrast=1.5''),
      (''saturate'', ''eq=saturation=2.0''),
      (''vignette'', ''vignette=PI/4''),
      (''vintage'', ''curves=vintage''),
      (''negative'', ''negate''),
      (''mirror'', ''hflip''),
      (''emboss'', ''convolution=-2 -1 0 -1 1 1 0 1 2:-2 -1 0 -1 1 1 0 1 2:-2 -1 0 -1 1 1 0 1 2:-2 -1 0 -1 1 1 0 1 2:5:5:5:5:0:128'')]"

definition Object_prototype_names :: "string list" where
  "Object_prototype_names =
     [''constructor'', ''__defineGetter__'', ''__defineSetter__'', ''hasOwnProperty'',
      ''__lookupGetter__'', ''__lookupSetter__'', ''isPrototypeOf'', ''propertyIsEnumerable'',
      ''toString'', ''valueOf'', ''__proto__'', ''toLocaleString'']"

definition filterMap_get :: "ustring \<Rightarrow> jsprop" where
  "filterMap_get k =
     (case map_of (map (\<lambda>(n, v). (u16 n, u16 v)) filterMap) k of
        Some v \<Rightarrow> PropString v
      | None \<Rightarrow> if k \<in> set (map u16 Object_prototype_names) then PropInherited
                else PropUndefined)"

fun truthy_prop :: "jsprop \<Rightarrow> bool" where
  "truthy_prop PropUndefined = False"
| "truthy_prop (PropString v) = (v \<noteq> [])"
| "truthy_prop PropInherited = True"

definition post_filter ::
  "(ustring \<Rightarrow> bool) \<Rightarrow> ustring option \<Rightarrow> ustring option \<Rightarrow> handler_result" where
  "post_filter existsSync filename filterName =
     (if \<not> present filename \<or> \<not> present filterName then Respond 400
      else if \<not> existsSync (the filename) then Respond 404
      else
        (let videoFilter = filterMap_get (the filterName)
         in if \<not> truthy_prop videoFilter then Respond 400
            else Enqueue (FilterJob videoFilter)))"

subsection \<open>\<open>POST /text\<close>: escaping the text\<close>

text \<open>
  The queue-based module: backslash doubled, single quote replaced by U+2019, colon
  escaped, percent doubled, brackets escaped, in this order.
\<close>

definition escapedText :: "ustring \<Rightarrow> ustring" where
  "escapedText text =
     replace_all RBRACKET [BACKSLASH, RBRACKET]
       (replace_all LBRACKET [BACKSLASH, LBRACKET]
         (replace_all PERCENT [PERCENT, PERCENT]
           (replace_all COLON [BACKSLASH, COLON]
             (replace_all QUOTE [RSQUO]
               (replace_all BACKSLASH [BACKSLASH, BACKSLASH] text)))))"

text \<open>
  The legacy module: backslash to four backslashes, single quote to quote, three
  backslashes, quote, quote; colon and semicolon escaped.
\<close>

definition escapedText_legacy :: "ustring \<Rightarrow> ustring" where
  "escapedText_legacy text =
     replace_all SEMICOLON [BACKSLASH, SEMICOLON]
       (replace_all COLON [BACKSLASH, COLON]
         (replace_all QUOTE [QUOTE, BACKSLASH, BACKSLASH, BACKSLASH, QUOTE, QUOTE]
           (replace_all BACKSLASH [BACKSLASH, BACKSLASH, BACKSLASH, BACKSLASH] text)))"

text \<open>
  The filter expression of the queue-based module. \<open>fontFile\<close> is what \<open>getSystemFont()\<close>
  returned, if any; the other fields are interpolated as they come, with the defaults
  \<open>32\<close>, \<open>white\<close> and the centred position, and a leading \<open>#\<close> of the colour becomes \<open>0x\<close>.
\<close>

definition drawTextFilter ::
  "ustring option \<Rightarrow> ustring \<Rightarrow> ustring option \<Rightarrow> ustring option \<Rightarrow> ustring option
     \<Rightarrow> ustring option \<Rightarrow> ustring option \<Rightarrow> ustring option \<Rightarrow> ustring" where
  "drawTextFilter fontFile text fontSize fontColor x y startTime endTime =
     (let size = (if present fontSize then the fontSize else u16 ''32'');
          color0 = (if present fontColor then the fontColor else u16 ''white'');
          color = (if take 1 color0 = u16 ''#'' then u16 ''0x'' @ drop 1 color0 else color0);
          posX = (if present x then the x else u16 ''(w-text_w)/2'');
          posY = (if present y then the y else u16 ''(h-text_h)/2'')
      in u16 ''drawtext='' @
         (case fontFile of
            Some f \<Rightarrow> u16 ''fontfile='' @ [QUOTE] @ f @ [QUOTE] @ [COLON]
          | None \<Rightarrow> []) @
         u16 ''text='' @ [QUOTE] @ escapedText text @ [QUOTE] @
         u16 '':fontsize='' @ size @ u16 '':fontcolor='' @ color @
         u16 '':x='' @ posX @ u16 '':y='' @ posY @
         (if startTime \<noteq> None \<and> endTime \<noteq> None
          then u16 '':enable='' @ [QUOTE] @ u16 ''between(t,'' @ the startTime @ u16 '','' @
               the endTime @ u16 '')'' @ [QUOTE]
          else []))"

definition post_text ::
  "(ustring \<Rightarrow> bool) \<Rightarrow> ustring option \<Rightarrow> ustring option \<Rightarrow> ustring option
     \<Rightarrow> ustring option \<Rightarrow> ustring option \<Rightarrow> ustring option \<Rightarrow> ustring option
     \<Rightarrow> ustring option \<Rightarrow> ustring option \<Rightarrow> handler_result" where
  "post_text existsSync fontFile filename text fontSize fontColor x y startTime endTime =
     (if \<not> present filename \<or> \<not> present text then Respond 400
      else if \<not> existsSync (the filename) then Respond 404
      else Enqueue (TextJob (drawTextFilter fontFile (the text) fontSize fontColor x y
                               startTime endTime)))"

subsection \<open>\<open>POST /merge\<close>\<close>

text \<open>At least two names, and every named upload must exist.\<close>

definition post_merge :: "(ustring \<Rightarrow> bool) \<Rightarrow> ustring list option \<Rightarrow> handler_result" where
  "post_merge existsSync filenames =
     (if filenames = None \<or> length (the filenames) < 2 then Respond 400
      else if \<not> list_all existsSync (the filenames) then Respond 404
      else Enqueue (MergeJob (the filenames)))"

subsection \<open>\<open>POST /audio\<close>\<close>

text \<open>
  For \<open>fadeOut\<close> the handler probes the input first; the callback gets the metadata, or
  nothing when the probe failed, and enqueues the job in both cases.
\<close>

record format_info =
  duration :: jsval

record metadata =
  format :: "format_info option"

definition fadeOut_duration :: "(ustring \<Rightarrow> real jsnum) \<Rightarrow> metadata option \<Rightarrow> real jsnum" where
  "fadeOut_duration pf md =
     (case md of
        None \<Rightarrow> Num 30
      | Some m \<Rightarrow>
          (case format m of
             None \<Rightarrow> Num 30
           | Some f \<Rightarrow> if truthy (duration f) then parseFloat pf (duration f) else Num 30))"

definition fadeStart :: "(ustring \<Rightarrow> real jsnum) \<Rightarrow> metadata option \<Rightarrow> real jsnum" where
  "fadeStart pf md = Math_max (Num 0) (js_sub (fadeOut_duration pf md) (Num 3))"

definition post_audio ::
  "(ustring \<Rightarrow> bool) \<Rightarrow> (ustring \<Rightarrow> real jsnum) \<Rightarrow> metadata option
     \<Rightarrow> ustring option \<Rightarrow> ustring option \<Rightarrow> jsval \<Rightarrow> handler_result" where
  "post_audio existsSync pf probe filename operation volume =
     (if \<not> present filename \<or> \<not> present operation then Respond 400
      else if \<not> existsSync (the filename) then Respond 404
      else if the operation = u16 ''extract'' then Enqueue ExtractJob
      else if the operation = u16 ''fadeOut'' then Enqueue (FadeOutJob (fadeStart pf probe))
      else if the operation = u16 ''mute'' then Enqueue MuteJob
      else if the operation = u16 ''volume'' then
        Enqueue (VolumeJob (if truthy volume then volume else NumV (Num 1)))
      else if the operation = u16 ''fadeIn'' then Enqueue FadeInJob
      else Respond 400)"

definition audio_operations :: "string list" where
  "audio_operations = [''extract'', ''fadeOut'', ''mute'', ''volume'', ''fadeIn'']"

subsection \<open>\<open>GET /video/:filename\<close> and \<open>GET /processed-video/:filename\<close>\<close>

text \<open>
  Both handlers, in both route modules, are the same code on two directories. \<open>file\<close> is
  the content of the named file, if it exists. \<open>createReadStream\<close> is the platform's: it
  throws unless \<open>start\<close> and \<open>end\<close> are integers from \<open>0\<close> to \<open>2\<^sup>5\<^sup>3 - 1\<close> with
  \<open>start \<le> end\<close>, and it is called before the head is written.
\<close>

type_synonym bytes = "8 word list"

record http_head =
  status :: nat
  content_range :: "ustring option"
  accept_ranges :: "ustring option"
  content_length :: "int jsnum"
  content_type :: ustring

datatype response = Json nat | Threw | Stream http_head bytes

definition MAX_SAFE_INTEGER :: int where
  "MAX_SAFE_INTEGER = 2 ^ 53 - 1"

fun createReadStream :: "bytes \<Rightarrow> int jsnum \<Rightarrow> int jsnum \<Rightarrow> bytes option" where
  "createReadStream content (Num a) (Num b) =
     (if 0 \<le> a \<and> a \<le> MAX_SAFE_INTEGER \<and> 0 \<le> b \<and> b \<le> MAX_SAFE_INTEGER \<and> a \<le> b
      then Some (take (nat (b - a + 1)) (drop (nat a) content)) else None)"
| "createReadStream content _ _ = None"

definition get_video :: "bytes option \<Rightarrow> ustring option \<Rightarrow> response" where
  "get_video file rangeHdr =
     (case file of
        None \<Rightarrow> Json 404
      | Some content \<Rightarrow>
          (let fileSize = int (length content) in
           if rangeHdr \<noteq> None \<and> rangeHdr \<noteq> Some [] then
             (let parts = split_on DASH (replace_first (u16 ''bytes='') [] (the rangeHdr));
                  start = (case parts of [] \<Rightarrow> NaN | p0 # _ \<Rightarrow> parseInt10 p0);
                  end' = (case parts of
                           _ # p1 # _ \<Rightarrow> if p1 \<noteq> [] then parseInt10 p1 else Num (fileSize - 1)
                         | _ \<Rightarrow> Num (fileSize - 1));
                  chunksize = js_add (js_sub end' start) (Num 1)
              in case createReadStream content start end' of
                   None \<Rightarrow> Threw
                 | Some stream \<Rightarrow>
                     Stream \<lparr>status = 206,
                             content_range = Some (u16 ''bytes '' @ show_num start @ [DASH] @
                                                   show_num end' @ [SLASH] @ show_num (Num fileSize)),
                             accept_ranges = Some (u16 ''bytes''),
                             content_length = chunksize,
                             content_type = u16 ''video/mp4''\<rparr> stream)
           else Stream \<lparr>status = 200, content_range = None, accept_ranges = None,
                        content_length = Num fileSize,
                        content_type = u16 ''video/mp4''\<rparr> content))"

section \<open>Files: the run of a job and the sweep\<close>

text \<open>
  A directory maps the names of its entries to what \<open>statSync\<close> tells about them.
  Input and output faults are parameters: \<open>readdirSync\<close>, \<open>statSync\<close> and \<open>unlinkSync\<close> may
  throw.
\<close>

record file_info =
  isFile :: bool
  mtimeMs :: real
  fsize :: nat

type_synonym directory = "ustring \<rightharpoonup> file_info"

record io_faults =
  readdir_throws :: bool
  stat_throws :: "ustring \<Rightarrow> bool"
  unlink_throws :: "ustring \<Rightarrow> bool"

text \<open>
  \<open>safeDelete\<close>: \<open>try { if (fs.existsSync(filePath)) fs.unlinkSync(filePath); } catch (e) {}\<close>.
  The module defines it and calls it nowhere.
\<close>

definition safeDelete :: "(ustring \<Rightarrow> bool) \<Rightarrow> ustring \<Rightarrow> directory \<Rightarrow> directory" where
  "safeDelete unlink_fails filePath d =
     (if d filePath \<noteq> None then (if unlink_fails filePath then d else d(filePath := None))
      else d)"

text \<open>
  The job function of a route on the processed directory. The engine is a parameter: it
  may write to the directory and it signals \<open>end\<close> or \<open>error\<close>. On \<open>end\<close> the handler
  answers with the name of the output, on \<open>error\<close> with status 500 unless the head was
  sent; both call \<open>resolve()\<close> and do nothing else.
\<close>

definition run_job ::
  "(directory \<Rightarrow> engine_signal \<times> directory) \<Rightarrow> bool \<Rightarrow> directory
     \<Rightarrow> nat option \<times> settlement \<times> directory" where
  "run_job engine headersSent d =
     (case engine d of
        (End, d') \<Rightarrow> (Some 200, jobFn_settlement End, d')
      | (Error, d') \<Rightarrow> (if headersSent then None else Some 500, jobFn_settlement Error, d'))"

subsection \<open>The sweep of the server file\<close>

definition CLEANUP_INTERVAL_MS :: real where
  "CLEANUP_INTERVAL_MS = 5 * 60 * 1000"

definition MAX_FILE_AGE_MS :: real where
  "MAX_FILE_AGE_MS = 15 * 60 * 1000"

text \<open>
  The loop of \<open>cleanupOldFiles\<close> over the names \<open>readdirSync\<close> returned; the inner
  \<open>try\<close>/\<open>catch\<close> skips a file whose \<open>statSync\<close> or \<open>unlinkSync\<close> throws (a name that is no
  longer there makes \<open>statSync\<close> throw).
\<close>

fun sweep_files ::
  "io_faults \<Rightarrow> real \<Rightarrow> ustring list \<Rightarrow> directory \<times> nat \<Rightarrow> directory \<times> nat" where
  "sweep_files io now [] (d, cleaned) = (d, cleaned)"
| "sweep_files io now (file # files) (d, cleaned) =
     sweep_files io now files
       (case (if stat_throws io file then None else d file) of
          None \<Rightarrow> (d, cleaned)
        | Some stat \<Rightarrow>
            if isFile stat \<and> now - mtimeMs stat > MAX_FILE_AGE_MS
            then (if unlink_throws io file then (d, cleaned)
                  else (d(file := None), cleaned + 1))
            else (d, cleaned))"

definition cleanupOldFiles ::
  "io_faults \<Rightarrow> real \<Rightarrow> ustring list \<Rightarrow> directory \<Rightarrow> directory" where
  "cleanupOldFiles io now files d =
     (if readdir_throws io then d else fst (sweep_files io now files (d, 0)))"

text \<open>
  One cycle of the timer: \<open>cleanupOldFiles(uploadsDir); cleanupOldFiles(processedDir)\<close>,
  each call with its own faults, clock reading and listing.
\<close>

record sweep_env =
  faults :: io_faults
  now :: real
  listing :: "ustring list"

definition sweep_cycle ::
  "sweep_env \<Rightarrow> sweep_env \<Rightarrow> directory \<times> directory \<Rightarrow> directory \<times> directory" where
  "sweep_cycle eu ep dirs =
     (cleanupOldFiles (faults eu) (now eu) (listing eu) (fst dirs),
      cleanupOldFiles (faults ep) (now ep) (listing ep) (snd dirs))"

section \<open>Vocabulary of the properties\<close>

text \<open>
  Reading an escaped text from left to right: a backslash escapes the character after
  it, a percent sign stands for itself only when doubled. \<open>neutralized\<close> holds when no
  backslash, percent sign, single quote, colon or bracket occurs outside such a pair;
  \<open>unescape\<close> reads the pairs back.
\<close>

fun neutralized :: "ustring \<Rightarrow> bool" where
  "neutralized [] = True"
| "neutralized [c] =
     (c \<noteq> BACKSLASH \<and> c \<noteq> PERCENT \<and> c \<noteq> QUOTE \<and> c \<noteq> COLON \<and> c \<noteq> LBRACKET \<and>
      c \<noteq> RBRACKET)"
| "neutralized (c # d # ds) =
     (if c = BACKSLASH then neutralized ds
      else if c = PERCENT then d = PERCENT \<and> neutralized ds
      else c \<noteq> QUOTE \<and> c \<noteq> COLON \<and> c \<noteq> LBRACKET \<and> c \<noteq> RBRACKET \<and>
           neutralized (d # ds))"

fun unescape :: "ustring \<Rightarrow> ustring" where
  "unescape [] = []"
| "unescape [c] = [c]"
| "unescape (c # d # ds) =
     (if c = BACKSLASH then d # unescape ds
      else if c = PERCENT \<and> d = PERCENT then PERCENT # unescape ds
      else c # unescape (d # ds))"

text \<open>What the two escaping steps do to one character.\<close>

definition esc1 :: "16 word \<Rightarrow> ustring" where
  "esc1 c = (if c = BACKSLASH then [BACKSLASH, BACKSLASH]
             else if c = QUOTE then [RSQUO]
             else if c = COLON then [BACKSLASH, COLON]
             else if c = PERCENT then [PERCENT, PERCENT]
             else if c = LBRACKET then [BACKSLASH, LBRACKET]
             else if c = RBRACKET then [BACKSLASH, RBRACKET]
             else [c])"

definition esc1_legacy :: "16 word \<Rightarrow> ustring" where
  "esc1_legacy c =
     (if c = BACKSLASH then [BACKSLASH, BACKSLASH, BACKSLASH, BACKSLASH]
      else if c = QUOTE then [QUOTE, BACKSLASH, BACKSLASH, BACKSLASH, QUOTE, QUOTE]
      else if c = COLON then [BACKSLASH, COLON]
      else if c = SEMICOLON then [BACKSLASH, SEMICOLON]
      else [c])"

text \<open>
  The entries one call of \<open>cleanupOldFiles\<close> at time \<open>t\<close> removes: regular files whose age
  exceeds the window and for which neither \<open>statSync\<close> nor \<open>unlinkSync\<close> throws.
\<close>

definition evicted :: "io_faults \<Rightarrow> real \<Rightarrow> directory \<Rightarrow> ustring \<Rightarrow> bool" where
  "evicted io t d f =
     (case d f of
        None \<Rightarrow> False
      | Some stat \<Rightarrow> isFile stat \<and> t - mtimeMs stat > MAX_FILE_AGE_MS \<and>
                     \<not> stat_throws io f \<and> \<not> unlink_throws io f)"

text \<open>Concrete inputs for the examples.\<close>

definition always_exists :: "ustring \<Rightarrow> bool" where
  "always_exists f = True"

definition never_exists :: "ustring \<Rightarrow> bool" where
  "never_exists f = False"

definition never_fails :: "ustring \<Rightarrow> bool" where
  "never_fails f = False"

definition empty_dir :: directory where
  "empty_dir = Map.empty"

definition no_parse :: "ustring \<Rightarrow> real jsnum" where
  "no_parse s = NaN"

definition reads_ten :: "ustring \<Rightarrow> real jsnum" where
  "reads_ten s = Num 10"

definition partial_output :: file_info where
  "partial_output = \<lparr>isFile = True, mtimeMs = 1000, fsize = 4096\<rparr>"

definition crashing_engine :: "directory \<Rightarrow> engine_signal \<times> directory" where
  "crashing_engine d = (Error, d(u16 ''filtered_1.mp4'' \<mapsto> partial_output))"

definition zero_duration_probe :: "metadata option" where
  "zero_duration_probe = Some \<lparr>format = Some \<lparr>duration = NumV (Num 0)\<rparr>\<rparr>"

definition no_faults :: io_faults where
  "no_faults = \<lparr>readdir_throws = False, stat_throws = (\<lambda>f. False),
                 unlink_throws = (\<lambda>f. False)\<rparr>"

definition locked_faults :: io_faults where
  "locked_faults = \<lparr>readdir_throws = False, stat_throws = (\<lambda>f. False),
                     unlink_throws = (\<lambda>f. f = u16 ''locked.mp4'')\<rparr>"

definition old_file :: file_info where
  "old_file = \<lparr>isFile = True, mtimeMs = 0, fsize = 10\<rparr>"

definition young_file :: file_info where
  "young_file = \<lparr>isFile = True, mtimeMs = 500000, fsize = 10\<rparr>"

definition demo_uploads :: directory where
  "demo_uploads = [u16 ''old.mp4'' \<mapsto> old_file, u16 ''young.mp4'' \<mapsto> young_file]"

definition demo_processed :: directory where
  "demo_processed = [u16 ''locked.mp4'' \<mapsto> old_file, u16 ''old.mp3'' \<mapsto> old_file]"

definition demo_env_uploads :: sweep_env where
  "demo_env_uploads = \<lparr>faults = no_faults, now = 1000000,
                        listing = [u16 ''old.mp4'', u16 ''young.mp4'']\<rparr>"

definition demo_env_processed :: sweep_env where
  "demo_env_processed = \<lparr>faults = locked_faults, now = 1000001,
                          listing = [u16 ''locked.mp4'', u16 ''old.mp3'']\<rparr>"

definition demo_content :: bytes where
  "demo_content = replicate 1000 0"



section \<open>Properties of the admission queue\<close>

lemma queue_inv_init: "0 \<le> N \<Longrightarrow> queue_inv N init_queue"
  by (simp add: queue_inv_def init_queue_def)

lemma queue_inv_enqueueJob: "queue_inv N s \<Longrightarrow> queue_inv N (enqueueJob N j s)"
  by (auto simp: queue_inv_def enqueueJob_def run_def)

lemma length_remove1_mem: "j \<in> set xs \<Longrightarrow> int (length (remove1 j xs)) = int (length xs) - 1"
  by (cases xs) (simp_all add: length_remove1 del: remove1.simps)

lemma queue_inv_settle_now:
  "queue_inv N s \<Longrightarrow> j \<in> set (pending s) \<Longrightarrow> queue_inv N (settle_now j r s)"
  by (auto simp: queue_inv_def settle_now_def finally_cb_def run_def Let_def
                 length_remove1_mem split: list.splits)

lemma queue_inv_step: "queue_inv N s \<Longrightarrow> step N e s = Some s' \<Longrightarrow> queue_inv N s'"
  by (cases e) (auto simp: settle_def queue_inv_enqueueJob queue_inv_settle_now
                     split: if_splits)

lemma queue_inv_exec: "queue_inv N s \<Longrightarrow> exec N es s = Some s' \<Longrightarrow> queue_inv N s'"
proof (induction es arbitrary: s)
  case Nil
  then show ?case by simp
next
  case (Cons e es)
  then show ?case
    by (auto split: option.splits dest: queue_inv_step)
qed

lemma order_step:
  "queue_inv N s \<Longrightarrow> step N e s = Some s' \<Longrightarrow>
   started s' @ jobQueue s' = started s @ jobQueue s @ submitted [e]"
  by (cases e)
     (auto simp: queue_inv_def enqueueJob_def run_def settle_def settle_now_def finally_cb_def
                 Let_def split: if_splits list.splits)

lemma submitted_Cons: "submitted (e # es) = submitted [e] @ submitted es"
  by (cases e) simp_all

lemma order_exec:
  "queue_inv N s \<Longrightarrow> exec N es s = Some s' \<Longrightarrow>
   started s' @ jobQueue s' = started s @ jobQueue s @ submitted es"
proof (induction es arbitrary: s)
  case Nil
  then show ?case by simp
next
  case (Cons e es)
  from Cons.prems obtain s1 where s1: "step N e s = Some s1" and rest: "exec N es s1 = Some s'"
    by (auto split: option.splits)
  have inv1: "queue_inv N s1" using Cons.prems(1) s1 by (rule queue_inv_step)
  have a: "started s' @ jobQueue s' = started s1 @ jobQueue s1 @ submitted es"
    using inv1 rest by (rule Cons.IH)
  have b: "started s1 @ jobQueue s1 = started s @ jobQueue s @ submitted [e]"
    using Cons.prems(1) s1 by (rule order_step)
  have "started s' @ jobQueue s' = (started s1 @ jobQueue s1) @ submitted es"
    using a by simp
  then show ?case unfolding b by (simp add: submitted_Cons [of e es])
qed

lemma jobs_settle_now:
  "j \<in> set (pending s) \<Longrightarrow> jobs_of (settle_now j r s) = jobs_of s"
  by (auto simp: jobs_of_def settle_now_def finally_cb_def run_def Let_def split: list.splits)

lemma jobs_step:
  assumes "step N e s = Some s'"
  shows "jobs_of s' = jobs_of s + mset (submitted [e])"
proof (cases e)
  case (Submit j)
  with assms show ?thesis by (auto simp: jobs_of_def enqueueJob_def run_def)
next
  case (Settle j r)
  with assms show ?thesis by (auto simp: jobs_settle_now settle_def split: if_splits)
qed

lemma jobs_exec: "exec N es s = Some s' \<Longrightarrow> jobs_of s' = jobs_of s + mset (submitted es)"
proof (induction es arbitrary: s)
  case Nil
  then show ?case by simp
next
  case (Cons e es)
  from Cons.prems obtain s1 where s1: "step N e s = Some s1" and rest: "exec N es s1 = Some s'"
    by (auto split: option.splits)
  show ?case using Cons.IH [OF rest] jobs_step [OF s1] by (simp add: submitted_Cons [of e es])
qed

lemma exec_append:
  "exec N (es @ fs) s = (case exec N es s of None \<Rightarrow> None | Some s' \<Rightarrow> exec N fs s')"
  by (induction es arbitrary: s) (auto split: option.splits)

lemma drain_reach: "\<exists>es. submitted es = [] \<and> exec N es s = Some (drain s)"
proof (induction s rule: drain.induct)
  case (1 s)
  show ?case
  proof (cases "pending s")
    case Nil
    then have "exec N [] s = Some (drain s)" by simp
    then show ?thesis by (metis submitted.simps(1))
  next
    case (Cons j js)
    from 1 [OF Cons] obtain es where es: "submitted es = []"
      "exec N es (settle_now j Fulfilled s) = Some (drain (settle_now j Fulfilled s))" by blast
    have "drain s = drain (settle_now j Fulfilled s)" using Cons by simp
    moreover have "step N (Settle j Fulfilled) s = Some (settle_now j Fulfilled s)"
      using Cons by (simp add: settle_def)
    ultimately have "exec N (Settle j Fulfilled # es) s = Some (drain s)"
      using es by simp
    moreover have "submitted (Settle j Fulfilled # es) = []" using es by simp
    ultimately show ?thesis by blast
  qed
qed

lemma drain_pending: "pending (drain s) = []"
proof (induction s rule: drain.induct)
  case (1 s)
  then show ?case by (cases "pending s") simp_all
qed

lemma inv_idle: "1 \<le> N \<Longrightarrow> queue_inv N s \<Longrightarrow> pending s = [] \<Longrightarrow> jobQueue s = []"
  by (auto simp: queue_inv_def)

lemma reach_inv: "1 \<le> N \<Longrightarrow> exec N evs init_queue = Some s \<Longrightarrow> queue_inv N s"
  using queue_inv_exec [of N init_queue evs s] queue_inv_init [of N] by simp

lemma reach_order:
  assumes "1 \<le> N" and "exec N evs init_queue = Some s"
  shows "started s @ jobQueue s = submitted evs"
proof -
  have "queue_inv N init_queue" using assms(1) by (simp add: queue_inv_init)
  from order_exec [OF this assms(2)] show ?thesis by (simp add: init_queue_def)
qed

lemma reach_jobs: "exec N evs init_queue = Some s \<Longrightarrow> jobs_of s = mset (submitted evs)"
  using jobs_exec [of N evs init_queue s] by (simp add: jobs_of_def init_queue_def)

lemma idle_all_finished:
  assumes "1 \<le> N" and "exec N evs init_queue = Some s" and "pending s = []"
  shows "jobQueue s = [] \<and> mset (map fst (finished s)) = mset (submitted evs)
         \<and> length (finished s) = length (submitted evs)"
proof -
  have q: "jobQueue s = []"
    using inv_idle [OF assms(1) reach_inv [OF assms(1,2)] assms(3)] .
  have m: "mset (map fst (finished s)) = mset (submitted evs)"
    using reach_jobs [OF assms(2)] q assms(3) by (simp add: jobs_of_def)
  have "size (mset (map fst (finished s))) = size (mset (submitted evs))"
    by (simp only: m)
  then have "length (finished s) = length (submitted evs)" by simp
  with q m show ?thesis by simp
qed

text \<open>
  Claim C1. Whatever sequence of submissions and settlements has happened since the
  start, under a ceiling \<open>N \<ge> 1\<close>: every value ever written to \<open>activeJobs\<close> is at most
  \<open>N\<close>, and \<open>activeJobs\<close> is the number of pending jobs. When no job is pending, none is
  waiting either and the jobs that reached a terminal state are the submitted ones, each
  once. Letting the pending jobs settle (\<open>drain\<close>) is a run of the queue with no further
  submission that ends in such a state, so all \<open>J\<close> submitted jobs reach a terminal state.
\<close>

theorem admission_bound_and_completion:
  assumes "1 \<le> N" and "exec N evs init_queue = Some s"
  shows "list_all (\<lambda>v. v \<le> N) (counter_log s) \<and> activeJobs s \<le> N \<and>
         activeJobs s = int (length (pending s)) \<and>
         (pending s = [] \<longrightarrow>
            jobQueue s = [] \<and> mset (map fst (finished s)) = mset (submitted evs) \<and>
            length (finished s) = length (submitted evs)) \<and>
         (\<exists>es. submitted es = [] \<and> exec N (evs @ es) init_queue = Some (drain s)) \<and>
         list_all (\<lambda>v. v \<le> N) (counter_log (drain s)) \<and>
         pending (drain s) = [] \<and> jobQueue (drain s) = [] \<and>
         mset (map fst (finished (drain s))) = mset (submitted evs) \<and>
         length (finished (drain s)) = length (submitted evs)"
proof -
  have inv: "queue_inv N s" using assms by (rule reach_inv)
  obtain es where es: "submitted es = []" "exec N es s = Some (drain s)"
    using drain_reach [of N s] by blast
  have full: "exec N (evs @ es) init_queue = Some (drain s)"
    using assms(2) es(2) by (simp add: exec_append)
  have sub: "submitted (evs @ es) = submitted evs"
    using es(1) by (induction evs rule: submitted.induct) simp_all
  have inv': "queue_inv N (drain s)" using assms(1) full by (rule reach_inv)
  have fin: "jobQueue (drain s) = [] \<and>
             mset (map fst (finished (drain s))) = mset (submitted evs) \<and>
             length (finished (drain s)) = length (submitted evs)"
    using idle_all_finished [OF assms(1) full drain_pending] by (simp only: sub)
  have idle: "pending s = [] \<longrightarrow>
            jobQueue s = [] \<and> mset (map fst (finished s)) = mset (submitted evs) \<and>
            length (finished s) = length (submitted evs)"
    using idle_all_finished [OF assms] by blast
  have reach: "\<exists>es. submitted es = [] \<and> exec N (evs @ es) init_queue = Some (drain s)"
    using es(1) full by blast
  from inv have a: "list_all (\<lambda>v. v \<le> N) (counter_log s)" and b: "activeJobs s \<le> N"
    and c: "activeJobs s = int (length (pending s))"
    by (simp_all add: queue_inv_def)
  from inv' have d: "list_all (\<lambda>v. v \<le> N) (counter_log (drain s))"
    by (simp add: queue_inv_def)
  from a b c d idle reach fin drain_pending [of s] show ?thesis by blast
qed

text \<open>
  Claim C2. In every reachable state the jobs that have entered \<open>run\<close>, in the order they
  entered it, are an initial segment of the submissions in submission order, and the
  waiting list is the rest in the same order: a job submitted earlier starts earlier.
  A terminal transition starts the oldest waiting entry and only that one, and starts
  nothing when no job waits.
\<close>

theorem fifo_release:
  assumes "1 \<le> N" and "exec N evs init_queue = Some s"
  shows "started s = take (length (started s)) (submitted evs) \<and>
         jobQueue s = drop (length (started s)) (submitted evs) \<and>
         (\<forall>j r. case jobQueue s of
              [] \<Rightarrow> started (settle_now j r s) = started s \<and> jobQueue (settle_now j r s) = []
            | q # rest \<Rightarrow>
                started (settle_now j r s) = started s @ [q] \<and>
                jobQueue (settle_now j r s) = rest \<and>
                pending (settle_now j r s) = remove1 j (pending s) @ [q])"
proof -
  have o: "started s @ jobQueue s = submitted evs" using assms by (rule reach_order)
  have t: "started s = take (length (started s)) (submitted evs)"
    by (simp add: o [symmetric])
  have d: "jobQueue s = drop (length (started s)) (submitted evs)"
    by (simp add: o [symmetric])
  have p: "\<forall>j r. case jobQueue s of
              [] \<Rightarrow> started (settle_now j r s) = started s \<and> jobQueue (settle_now j r s) = []
            | q # rest \<Rightarrow>
                started (settle_now j r s) = started s @ [q] \<and>
                jobQueue (settle_now j r s) = rest \<and>
                pending (settle_now j r s) = remove1 j (pending s) @ [q]"
    by (simp add: settle_now_def finally_cb_def run_def Let_def split: list.splits)
  from t d p show ?thesis by blast
qed

text \<open>
  Claim C3. The engine's \<open>error\<close> signal makes the job function call \<open>resolve()\<close>, so the
  \<open>.finally\<close> callback runs as for a success: in every reachable state the failing job
  reaches a terminal state, the oldest waiting job (if any) is started, and with no job
  waiting the slot is free for the next submission. In particular, for two submissions
  \<open>x\<close> and \<open>y\<close> of which the first fails, \<open>y\<close> is started, whether it was submitted before
  or after the failure.
\<close>

theorem failed_job_frees_slot:
  assumes "1 \<le> N" and "exec N evs init_queue = Some s" and "a \<in> set (pending s)"
  shows "(\<exists>s'. step N (Settle a (jobFn_settlement Error)) s = Some s' \<and>
            activeJobs s' \<le> N \<and> (a, Fulfilled) \<in> set (finished s') \<and>
            (case jobQueue s of
               [] \<Rightarrow> activeJobs s' = activeJobs s - 1 \<and> jobQueue s' = [] \<and>
                     (\<forall>b. pending (enqueueJob N b s') = pending s' @ [b])
             | b # rest \<Rightarrow> pending s' = remove1 a (pending s) @ [b] \<and> jobQueue s' = rest \<and>
                     started s' = started s @ [b])) \<and>
         (\<exists>t. exec MAX_CONCURRENT_JOBS [Submit x, Submit y, Settle x (jobFn_settlement Error)]
                 init_queue = Some t \<and>
              pending t = [y] \<and> started t = [x, y] \<and> jobQueue t = [] \<and> activeJobs t = 1 \<and>
              finished t = [(x, Fulfilled)]) \<and>
         (\<exists>t. exec MAX_CONCURRENT_JOBS [Submit x, Settle x (jobFn_settlement Error), Submit y]
                 init_queue = Some t \<and>
              pending t = [y] \<and> started t = [x, y] \<and> jobQueue t = [] \<and> activeJobs t = 1 \<and>
              finished t = [(x, Fulfilled)])"
proof -
  have inv: "queue_inv N s" using assms(1,2) by (rule reach_inv)
  let ?s' = "settle_now a Fulfilled s"
  have st: "step N (Settle a (jobFn_settlement Error)) s = Some ?s'"
    using assms(3) by (simp add: settle_def)
  have inv': "queue_inv N ?s'" using inv assms(3) by (rule queue_inv_settle_now)
  then have le: "activeJobs ?s' \<le> N" by (simp add: queue_inv_def)
  have fin: "(a, Fulfilled) \<in> set (finished ?s')"
    by (simp add: settle_now_def finally_cb_def run_def Let_def split: list.splits)
  have cs: "case jobQueue s of
               [] \<Rightarrow> activeJobs ?s' = activeJobs s - 1 \<and> jobQueue ?s' = [] \<and>
                     (\<forall>b. pending (enqueueJob N b ?s') = pending ?s' @ [b])
             | b # rest \<Rightarrow> pending ?s' = remove1 a (pending s) @ [b] \<and> jobQueue ?s' = rest \<and>
                     started ?s' = started s @ [b]"
    using inv by (auto simp: queue_inv_def settle_now_def finally_cb_def run_def enqueueJob_def
                     Let_def split: list.splits)
  have one: "\<exists>s'. step N (Settle a (jobFn_settlement Error)) s = Some s' \<and>
            activeJobs s' \<le> N \<and> (a, Fulfilled) \<in> set (finished s') \<and>
            (case jobQueue s of
               [] \<Rightarrow> activeJobs s' = activeJobs s - 1 \<and> jobQueue s' = [] \<and>
                     (\<forall>b. pending (enqueueJob N b s') = pending s' @ [b])
             | b # rest \<Rightarrow> pending s' = remove1 a (pending s) @ [b] \<and> jobQueue s' = rest \<and>
                     started s' = started s @ [b])"
    using st le fin cs by blast
  have two: "\<exists>t. exec MAX_CONCURRENT_JOBS [Submit x, Submit y, Settle x (jobFn_settlement Error)]
                 init_queue = Some t \<and>
              pending t = [y] \<and> started t = [x, y] \<and> jobQueue t = [] \<and> activeJobs t = 1 \<and>
              finished t = [(x, Fulfilled)]"
    by (simp add: MAX_CONCURRENT_JOBS_def init_queue_def enqueueJob_def run_def settle_def
                  settle_now_def finally_cb_def Let_def)
  have three: "\<exists>t. exec MAX_CONCURRENT_JOBS [Submit x, Settle x (jobFn_settlement Error), Submit y]
                 init_queue = Some t \<and>
              pending t = [y] \<and> started t = [x, y] \<and> jobQueue t = [] \<and> activeJobs t = 1 \<and>
              finished t = [(x, Fulfilled)]"
    by (simp add: MAX_CONCURRENT_JOBS_def init_queue_def enqueueJob_def run_def settle_def
                  settle_now_def finally_cb_def Let_def)
  from one two three show ?thesis by blast
qed

lemma demo_exec: "exec MAX_CONCURRENT_JOBS demo_events init_queue = Some demo_state"
  by (simp add: demo_events_def demo_state_def MAX_CONCURRENT_JOBS_def init_queue_def
                enqueueJob_def run_def settle_def settle_now_def finally_cb_def Let_def)

theorem admission_bound_and_completion_witness:
  "1 \<le> MAX_CONCURRENT_JOBS \<and>
   exec MAX_CONCURRENT_JOBS demo_events init_queue = Some demo_state \<and>
   list_all (\<lambda>v. v \<le> MAX_CONCURRENT_JOBS) (counter_log demo_state) \<and>
   activeJobs demo_state \<le> MAX_CONCURRENT_JOBS \<and>
   pending (drain demo_state) = [] \<and> jobQueue (drain demo_state) = [] \<and>
   length (finished (drain demo_state)) = 3"
proof -
  have h1: "1 \<le> MAX_CONCURRENT_JOBS" by (simp add: MAX_CONCURRENT_JOBS_def)
  have "length (submitted demo_events) = 3" by (simp add: demo_events_def)
  with admission_bound_and_completion [OF h1 demo_exec] h1 demo_exec show ?thesis
    by simp
qed

theorem fifo_release_witness:
  "1 \<le> MAX_CONCURRENT_JOBS \<and>
   exec MAX_CONCURRENT_JOBS demo_events init_queue = Some demo_state \<and>
   started demo_state = take 2 [0, 1, 2] \<and> jobQueue demo_state = drop 2 [0, 1, 2] \<and>
   started (settle_now 1 Fulfilled demo_state) = [0, 1, 2] \<and>
   jobQueue (settle_now 1 Fulfilled demo_state) = []"
proof -
  have h1: "1 \<le> MAX_CONCURRENT_JOBS" by (simp add: MAX_CONCURRENT_JOBS_def)
  have "jobQueue demo_state = [2]" "started demo_state = [0, 1]"
    "submitted demo_events = [0, 1, 2]"
    by (simp_all add: demo_state_def demo_events_def)
  with fifo_release [OF h1 demo_exec] h1 demo_exec show ?thesis
    by (simp split: list.splits)
qed

theorem failed_job_frees_slot_witness:
  "1 \<le> MAX_CONCURRENT_JOBS \<and>
   exec MAX_CONCURRENT_JOBS demo_events init_queue = Some demo_state \<and>
   1 \<in> set (pending demo_state) \<and>
   (\<exists>s'. step MAX_CONCURRENT_JOBS (Settle 1 (jobFn_settlement Error)) demo_state = Some s' \<and>
         pending s' = [2] \<and> jobQueue s' = [] \<and> started s' = [0, 1, 2])"
proof -
  have h1: "1 \<le> MAX_CONCURRENT_JOBS" by (simp add: MAX_CONCURRENT_JOBS_def)
  have h3: "1 \<in> set (pending demo_state)" by (simp add: demo_state_def)
  have "jobQueue demo_state = [2]" "started demo_state = [0, 1]" "pending demo_state = [1]"
    by (simp_all add: demo_state_def)
  with failed_job_frees_slot [OF h1 demo_exec h3, where x = 0 and y = 1] h1 demo_exec h3
  show ?thesis
    by (auto split: list.splits)
qed

section \<open>The text escaping\<close>

lemma replace_all_Nil [simp]: "replace_all c r [] = []"
  by (simp add: replace_all_def)

lemma replace_all_Cons:
  "replace_all c r (x # xs) = (if x = c then r else [x]) @ replace_all c r xs"
  by (simp add: replace_all_def)

lemma replace_all_append:
  "replace_all c r (xs @ ys) = replace_all c r xs @ replace_all c r ys"
  by (simp add: replace_all_def)

lemma escapedText_Cons: "escapedText (c # cs) = esc1 c @ escapedText cs"
  by (simp add: escapedText_def esc1_def replace_all_Cons replace_all_append)

lemma escapedText_Nil: "escapedText [] = []"
  by (simp add: escapedText_def)

lemma neutralized_esc1: "neutralized (esc1 c @ rest) = neutralized rest"
  by (cases rest) (simp_all add: esc1_def)

lemma unescape_esc1: "unescape (esc1 c @ rest) = (if c = QUOTE then RSQUO else c) # unescape rest"
  by (cases rest) (simp_all add: esc1_def)

lemma quote_notin_esc1: "QUOTE \<notin> set (esc1 c)"
  by (simp add: esc1_def)

lemma escapedText_legacy_Cons:
  "escapedText_legacy (c # cs) = esc1_legacy c @ escapedText_legacy cs"
  by (simp add: escapedText_legacy_def esc1_legacy_def replace_all_Cons replace_all_append)

lemma escapedText_legacy_Nil: "escapedText_legacy [] = []"
  by (simp add: escapedText_legacy_def)

text \<open>
  Claim C5, amended. In the queue-based module the escaped text has no backslash,
  percent sign, single quote, colon or bracket outside an escape pair, it contains no
  single quote at all, so the quoted argument \<open>text='...'\<close> of the filter expression
  ends at its closing quote, and reading the pairs back gives the input with every
  single quote replaced by U+2019. The legacy module maps every character by \<open>esc1_legacy\<close>:
  it changes backslash, single quote, colon and semicolon and nothing else.
\<close>

theorem escapedText_neutralizes:
  "neutralized (escapedText t) \<and>
   QUOTE \<notin> set (escapedText t) \<and>
   unescape (escapedText t) = replace_all QUOTE [RSQUO] t \<and>
   takeWhile (\<lambda>c. c \<noteq> QUOTE) (escapedText t @ QUOTE # rest) = escapedText t \<and>
   escapedText_legacy t = concat (map esc1_legacy t)"
proof -
  have a: "neutralized (escapedText t)"
    by (induction t) (simp_all add: escapedText_Nil escapedText_Cons neutralized_esc1)
  have b: "QUOTE \<notin> set (escapedText t)"
    by (induction t) (simp_all add: escapedText_Nil escapedText_Cons quote_notin_esc1)
  have c: "unescape (escapedText t) = replace_all QUOTE [RSQUO] t"
    by (induction t)
       (simp_all add: escapedText_Nil escapedText_Cons unescape_esc1 replace_all_Cons)
  have d: "escapedText_legacy t = concat (map esc1_legacy t)"
    by (induction t) (simp_all add: escapedText_legacy_Nil escapedText_legacy_Cons)
  have e: "takeWhile (\<lambda>c. c \<noteq> QUOTE) (escapedText t @ QUOTE # rest) = escapedText t"
    using b by (auto simp: takeWhile_tail)
  from a b c d e show ?thesis by blast
qed

text \<open>
  The claim as stated fails on the legacy module: a bracket and a percent sign pass
  through unescaped.
\<close>

theorem escapedText_legacy_leaves_bracket:
  "escapedText_legacy [LBRACKET, PERCENT, RBRACKET] = [LBRACKET, PERCENT, RBRACKET] \<and>
   \<not> neutralized (escapedText_legacy [LBRACKET, PERCENT, RBRACKET])"
  by (simp add: escapedText_legacy_def replace_all_Cons)

section \<open>Range requests\<close>

lemma digit_char_unat: "d < 10 \<Longrightarrow> unat (digit_char d) = 48 + d"
proof -
  assume d: "d < 10"
  have "unat (digit_char d) = (48 + d) mod 2 ^ LENGTH(16)"
    unfolding digit_char_def by (rule unat_of_nat)
  also have "\<dots> = 48 + d" using d by simp
  finally show ?thesis .
qed

lemma is_digit_digit_char: "d < 10 \<Longrightarrow> is_digit (digit_char d)"
  by (simp add: is_digit_def word_le_nat_alt digit_char_unat)

lemma digit_val_digit_char: "d < 10 \<Longrightarrow> digit_val (digit_char d) = int d"
  by (simp add: digit_val_def digit_char_unat)

lemma digit_char_neq_special:
  "d < 10 \<Longrightarrow> digit_char d \<noteq> DASH \<and> digit_char d \<noteq> PLUS \<and> \<not> is_white (digit_char d)"
proof -
  assume d: "d < 10"
  have u: "unat (digit_char d) = 48 + d" using d by (rule digit_char_unat)
  have "unat (digit_char d) \<noteq> unat DASH" "unat (digit_char d) \<noteq> unat PLUS"
    using u by simp_all
  then have a: "digit_char d \<noteq> DASH" "digit_char d \<noteq> PLUS" by auto
  have "\<not> is_white (digit_char d)"
    unfolding is_white_def using u d by (auto simp: word_le_nat_alt dest: arg_cong [where f = unat])
  with a show ?thesis by simp
qed

lemma dec_digits: "list_all (\<lambda>c. \<exists>d<10. c = digit_char d) (dec n)"
proof (induction n rule: dec.induct)
  case (1 n)
  show ?case
  proof (cases "n < 10")
    case True
    then show ?thesis by (subst dec.simps) auto
  next
    case False
    then have "list_all (\<lambda>c. \<exists>d<10. c = digit_char d) (dec (n div 10))" by (rule 1)
    moreover have "\<exists>d<10. digit_char (n mod 10) = digit_char d"
      by (rule exI [of _ "n mod 10"]) simp
    ultimately show ?thesis using False by (subst dec.simps) simp
  qed
qed

lemma dec_nonempty: "dec n \<noteq> []"
  by (subst dec.simps) simp

lemma dec_value: "foldl (\<lambda>acc d. acc * 10 + digit_val d) 0 (dec n) = int n"
proof (induction n rule: dec.induct)
  case (1 n)
  show ?case
  proof (cases "n < 10")
    case True
    then show ?thesis by (subst dec.simps) (simp add: digit_val_digit_char)
  next
    case False
    then have "foldl (\<lambda>acc d. acc * 10 + digit_val d) 0 (dec (n div 10)) = int (n div 10)"
      by (rule 1)
    moreover have "digit_val (digit_char (n mod 10)) = int (n mod 10)"
      by (simp add: digit_val_digit_char)
    ultimately show ?thesis using False
      by (subst dec.simps) (simp add: zdiv_int zmod_int)
  qed
qed


lemma parseInt10_digits:
  assumes "z \<noteq> []" and "list_all (\<lambda>c. \<exists>d<10. c = digit_char d) z"
  shows "parseInt10 z = Num (foldl (\<lambda>acc d. acc * 10 + digit_val d) 0 z)"
proof -
  from assms obtain c cs where z: "z = c # cs" by (cases z) auto
  from assms(2) z obtain d where d: "d < 10" "c = digit_char d" by auto
  have c: "c \<noteq> DASH" "c \<noteq> PLUS" "\<not> is_white c"
    using digit_char_neq_special [OF d(1)] d(2) by simp_all
  have w: "dropWhile is_white z = z" using z c by simp
  have "list_all is_digit z"
    using assms(2) by (induction z) (auto simp: is_digit_digit_char)
  then have t: "takeWhile is_digit z = z"
    by (simp add: list_all_iff)
  show ?thesis
    unfolding parseInt10_def w Let_def using z c t by simp
qed

lemma parseInt10_dec: "parseInt10 (dec n) = Num (int n)"
  using parseInt10_digits [OF dec_nonempty dec_digits] by (simp add: dec_value)

lemma dash_notin_dec: "DASH \<notin> set (dec n)"
proof
  assume "DASH \<in> set (dec n)"
  with dec_digits [of n] obtain d where "d < 10" "DASH = digit_char d"
    by (auto simp: list_all_iff)
  with digit_char_neq_special [of d] show False by simp
qed

lemma split_on_absent: "c \<notin> set s \<Longrightarrow> split_on c s = [s]"
  by (induction s) auto

lemma split_on_first: "c \<notin> set xs \<Longrightarrow> split_on c (xs @ c # ys) = xs # split_on c ys"
  by (induction xs) auto

lemma replace_first_prefix: "pat \<noteq> [] \<Longrightarrow> replace_first pat rep (pat @ rest) = rep @ rest"
  by (cases pat) simp_all

lemma bytes_prefix_nonempty: "u16 ''bytes='' \<noteq> []"
  by (simp add: u16_def)

lemma range_parts:
  "split_on DASH (replace_first (u16 ''bytes='') [] (u16 ''bytes='' @ dec a @ DASH # rest))
     = dec a # split_on DASH rest"
  by (simp add: replace_first_prefix [OF bytes_prefix_nonempty] split_on_first dash_notin_dec)

lemma show_num_nat: "show_num (Num (int n)) = dec n"
  by simp

lemma get_video_two_parts:
  assumes "r \<noteq> []"
    and "split_on DASH (replace_first (u16 ''bytes='') [] r) = [p0, p1]"
    and "parseInt10 p0 = Num (int a)" and "p1 \<noteq> []" and "parseInt10 p1 = Num (int b)"
    and "a \<le> b" and "int b \<le> MAX_SAFE_INTEGER"
  shows "get_video (Some content) (Some r) =
           Stream \<lparr>status = 206,
                   content_range = Some (u16 ''bytes '' @ dec a @ [DASH] @ dec b @ [SLASH] @
                                         dec (length content)),
                   accept_ranges = Some (u16 ''bytes''),
                   content_length = Num (int b - int a + 1),
                   content_type = u16 ''video/mp4''\<rparr>
                  (take (b - a + 1) (drop a content))"
proof -
  have n: "nat (int b - int a + 1) = b - a + 1" using assms(6) by simp
  have c: "createReadStream content (Num (int a)) (Num (int b))
             = Some (take (b - a + 1) (drop a content))"
    using assms(6,7) by (simp add: n)
  show ?thesis
    unfolding get_video_def Let_def
    by (simp add: assms(1,2,3,4,5) c del: createReadStream.simps)
qed

lemma get_video_one_part:
  assumes "r \<noteq> []"
    and "split_on DASH (replace_first (u16 ''bytes='') [] r) = [p0, []]"
    and "parseInt10 p0 = Num (int a)"
    and "a < length content" and "int (length content) \<le> MAX_SAFE_INTEGER + 1"
  shows "get_video (Some content) (Some r) =
           Stream \<lparr>status = 206,
                   content_range = Some (u16 ''bytes '' @ dec a @ [DASH] @
                                         dec (length content - 1) @ [SLASH] @
                                         dec (length content)),
                   accept_ranges = Some (u16 ''bytes''),
                   content_length = Num (int (length content) - int a),
                   content_type = u16 ''video/mp4''\<rparr>
                  (drop a content)"
proof -
  have n: "nat (int (length content) - 1 - int a + 1) = length content - a"
    using assms(4) by simp
  have pos: "content \<noteq> []" using assms(4) by auto
  have c: "createReadStream content (Num (int a)) (Num (int (length content) - 1))
             = Some (drop a content)"
    using assms(4,5) pos by (simp add: n)
  have d: "nat (int (length content) - 1) = length content - 1" by simp
  have e: "\<not> int (length content) - 1 < 0" using pos by (cases content) simp_all
  show ?thesis
    unfolding get_video_def Let_def
    by (simp add: assms(1,2,3) c d e pos del: createReadStream.simps)
qed

lemma get_video_range:
  assumes "a \<le> b" and "b < length content" and "length content \<le> 2 ^ 53"
  shows "get_video (Some content) (Some (u16 ''bytes='' @ dec a @ [DASH] @ dec b)) =
           Stream \<lparr>status = 206,
                   content_range = Some (u16 ''bytes '' @ dec a @ [DASH] @ dec b @ [SLASH] @
                                         dec (length content)),
                   accept_ranges = Some (u16 ''bytes''),
                   content_length = Num (int b - int a + 1),
                   content_type = u16 ''video/mp4''\<rparr>
                  (take (b - a + 1) (drop a content))"
proof (rule get_video_two_parts)
  show "u16 ''bytes='' @ dec a @ [DASH] @ dec b \<noteq> []" by simp
  show "split_on DASH (replace_first (u16 ''bytes='') []
          (u16 ''bytes='' @ dec a @ [DASH] @ dec b)) = [dec a, dec b]"
    using range_parts [of a "dec b"] by (simp add: split_on_absent dash_notin_dec)
  show "parseInt10 (dec a) = Num (int a)" by (rule parseInt10_dec)
  show "dec b \<noteq> []" by (rule dec_nonempty)
  show "parseInt10 (dec b) = Num (int b)" by (rule parseInt10_dec)
  show "a \<le> b" by (rule assms(1))
  show "int b \<le> MAX_SAFE_INTEGER" using assms(2,3) by (simp add: MAX_SAFE_INTEGER_def)
qed

lemma get_video_open_range:
  assumes "a < length content" and "length content \<le> 2 ^ 53"
  shows "get_video (Some content) (Some (u16 ''bytes='' @ dec a @ [DASH])) =
           Stream \<lparr>status = 206,
                   content_range = Some (u16 ''bytes '' @ dec a @ [DASH] @
                                         dec (length content - 1) @ [SLASH] @
                                         dec (length content)),
                   accept_ranges = Some (u16 ''bytes''),
                   content_length = Num (int (length content) - int a),
                   content_type = u16 ''video/mp4''\<rparr>
                  (drop a content)"
proof (rule get_video_one_part)
  show "u16 ''bytes='' @ dec a @ [DASH] \<noteq> []" by simp
  show "split_on DASH (replace_first (u16 ''bytes='') [] (u16 ''bytes='' @ dec a @ [DASH]))
          = [dec a, []]"
    using range_parts [of a "[]"] by simp
  show "parseInt10 (dec a) = Num (int a)" by (rule parseInt10_dec)
  show "a < length content" by (rule assms(1))
  show "int (length content) \<le> MAX_SAFE_INTEGER + 1"
    using assms by (simp add: MAX_SAFE_INTEGER_def)
qed

lemma get_video_no_range:
  "get_video (Some content) None =
     Stream \<lparr>status = 200, content_range = None, accept_ranges = None,
             content_length = Num (int (length content)),
             content_type = u16 ''video/mp4''\<rparr> content"
  by (simp add: get_video_def)

lemma dec_0: "dec 0 = u16 ''0''"
  by (subst dec.simps) (simp add: u16_def digit_char_def)

lemma dec_99: "dec 99 = u16 ''99''"
  by (simp add: dec.simps u16_def digit_char_def)

lemma dec_1000: "dec 1000 = u16 ''1000''"
  by (simp add: dec.simps u16_def digit_char_def)

lemma example_range:
  assumes "length content = 1000"
  shows "get_video (Some content) (Some (u16 ''bytes=0-99'')) =
           Stream \<lparr>status = 206, content_range = Some (u16 ''bytes 0-99/1000''),
                   accept_ranges = Some (u16 ''bytes''), content_length = Num 100,
                   content_type = u16 ''video/mp4''\<rparr> (take 100 content)"
proof -
  have h: "u16 ''bytes=0-99'' = u16 ''bytes='' @ dec 0 @ [DASH] @ dec 99"
    by (simp add: dec_0 dec_99) (simp add: u16_def)
  have r: "u16 ''bytes 0-99/1000'' = u16 ''bytes '' @ dec 0 @ [DASH] @ dec 99 @ [SLASH] @ dec 1000"
    by (simp add: dec_0 dec_99 dec_1000) (simp add: u16_def)
  show ?thesis
    unfolding h r using get_video_range [of 0 99 content] assms by simp
qed

text \<open>
  Claim C6. For a file of size \<open>S\<close> (at most \<open>2\<^sup>5\<^sup>3\<close>, where the host's numbers are exact)
  and \<open>a \<le> b < S\<close>: the header \<open>bytes=a-b\<close> gives status 206, \<open>Content-Range: bytes a-b/S\<close>,
  \<open>Content-Length\<close> \<open>b - a + 1\<close> and the bytes from \<open>a\<close> to \<open>b\<close>; \<open>bytes=a-\<close> gives the same with
  \<open>S - 1\<close> for the end; no header gives status 200 with \<open>Content-Length\<close> \<open>S\<close> and the whole
  file; and \<open>bytes=0-99\<close> on 1000 bytes gives 206, \<open>bytes 0-99/1000\<close> and 100.
\<close>

theorem range_request:
  assumes "a \<le> b" and "b < length content" and "length content \<le> 2 ^ 53"
  shows "get_video (Some content) (Some (u16 ''bytes='' @ dec a @ [DASH] @ dec b)) =
           Stream \<lparr>status = 206,
                   content_range = Some (u16 ''bytes '' @ dec a @ [DASH] @ dec b @ [SLASH] @
                                         dec (length content)),
                   accept_ranges = Some (u16 ''bytes''),
                   content_length = Num (int b - int a + 1),
                   content_type = u16 ''video/mp4''\<rparr>
                  (take (b - a + 1) (drop a content)) \<and>
         get_video (Some content) (Some (u16 ''bytes='' @ dec a @ [DASH])) =
           Stream \<lparr>status = 206,
                   content_range = Some (u16 ''bytes '' @ dec a @ [DASH] @
                                         dec (length content - 1) @ [SLASH] @
                                         dec (length content)),
                   accept_ranges = Some (u16 ''bytes''),
                   content_length = Num (int (length content) - int a),
                   content_type = u16 ''video/mp4''\<rparr>
                  (drop a content) \<and>
         get_video (Some content) None =
           Stream \<lparr>status = 200, content_range = None, accept_ranges = None,
                   content_length = Num (int (length content)),
                   content_type = u16 ''video/mp4''\<rparr> content \<and>
         (length content = 1000 \<longrightarrow>
            get_video (Some content) (Some (u16 ''bytes=0-99'')) =
              Stream \<lparr>status = 206, content_range = Some (u16 ''bytes 0-99/1000''),
                      accept_ranges = Some (u16 ''bytes''), content_length = Num 100,
                      content_type = u16 ''video/mp4''\<rparr> (take 100 content))"
proof -
  have lt: "a < length content" using assms(1,2) by simp
  from get_video_range [OF assms] get_video_open_range [OF lt assms(3)]
    get_video_no_range [of content] example_range [of content]
  show ?thesis by blast
qed

theorem range_request_witness:
  "(0::nat) \<le> 99 \<and> 99 < length demo_content \<and> length demo_content \<le> 2 ^ 53 \<and>
   length demo_content = 1000 \<and>
   get_video (Some demo_content) (Some (u16 ''bytes=0-99'')) =
     Stream \<lparr>status = 206, content_range = Some (u16 ''bytes 0-99/1000''),
             accept_ranges = Some (u16 ''bytes''), content_length = Num 100,
             content_type = u16 ''video/mp4''\<rparr> (take 100 demo_content) \<and>
   get_video (Some demo_content) None =
     Stream \<lparr>status = 200, content_range = None, accept_ranges = None,
             content_length = Num 1000, content_type = u16 ''video/mp4''\<rparr> demo_content"
proof -
  have h1: "(0::nat) \<le> 99" by simp
  have len: "length demo_content = 1000" by (simp add: demo_content_def)
  have h2: "99 < length demo_content" by (simp add: len)
  have h3: "length demo_content \<le> 2 ^ 53" by (simp add: len)
  from range_request [OF h1 h2 h3] h1 h2 h3 len show ?thesis by simp
qed

section \<open>The sweep\<close>

lemma evicted_update:
  "evicted io t (d(x := None)) f = (f \<noteq> x \<and> evicted io t d f)"
  by (simp add: evicted_def)

lemma sweep_files_lookup:
  "fst (sweep_files io t files (d, c)) f =
     (if f \<in> set files \<and> evicted io t d f then None else d f)"
proof (induction files arbitrary: d c)
  case Nil
  then show ?case by simp
next
  case (Cons x xs)
  show ?case
  proof (cases "evicted io t d x")
    case True
    then have step: "sweep_files io t (x # xs) (d, c) = sweep_files io t xs (d(x := None), c + 1)"
      by (auto simp: evicted_def split: option.splits)
    show ?thesis
      unfolding step Cons.IH using True by (auto simp: evicted_update)
  next
    case False
    then have step: "sweep_files io t (x # xs) (d, c) = sweep_files io t xs (d, c)"
      by (auto simp: evicted_def split: option.splits)
    show ?thesis
      unfolding step Cons.IH using False by auto
  qed
qed

lemma cleanupOldFiles_lookup:
  assumes "\<not> readdir_throws io" and "dom d \<subseteq> set files"
  shows "cleanupOldFiles io t files d f = (if evicted io t d f then None else d f)"
proof -
  have "evicted io t d f \<Longrightarrow> f \<in> set files"
    using assms(2) by (auto simp: evicted_def split: option.splits)
  then show ?thesis
    using assms(1) by (auto simp: cleanupOldFiles_def sweep_files_lookup)
qed

text \<open>
  Claim C9. One cycle, when both directories can be listed and the listings name their
  entries: in each directory an entry is absent afterwards exactly when it was a regular
  file whose age at the time of the call exceeded the window and neither \<open>statSync\<close> nor
  \<open>unlinkSync\<close> threw for it; every other entry, the files within the window, the
  directories and the files whose deletion failed, is there unchanged. A fault for
  one name has no effect on any other name.
\<close>

theorem sweep_evicts_exactly_old_files:
  assumes "\<not> readdir_throws (faults eu)" and "dom uploads \<subseteq> set (listing eu)"
    and "\<not> readdir_throws (faults ep)" and "dom processed \<subseteq> set (listing ep)"
  shows "fst (sweep_cycle eu ep (uploads, processed)) f =
           (if evicted (faults eu) (now eu) uploads f then None else uploads f) \<and>
         snd (sweep_cycle eu ep (uploads, processed)) f =
           (if evicted (faults ep) (now ep) processed f then None else processed f)"
  unfolding sweep_cycle_def
  by (simp add: cleanupOldFiles_lookup [OF assms(1,2)] cleanupOldFiles_lookup [OF assms(3,4)])

lemma demo_names:
  "u16 ''old.mp4'' \<noteq> u16 ''young.mp4''" "u16 ''locked.mp4'' \<noteq> u16 ''old.mp3''"
  by (simp_all add: u16_def)

theorem sweep_evicts_exactly_old_files_witness:
  "\<not> readdir_throws (faults demo_env_uploads) \<and>
   dom demo_uploads \<subseteq> set (listing demo_env_uploads) \<and>
   \<not> readdir_throws (faults demo_env_processed) \<and>
   dom demo_processed \<subseteq> set (listing demo_env_processed) \<and>
   fst (sweep_cycle demo_env_uploads demo_env_processed (demo_uploads, demo_processed))
     (u16 ''old.mp4'') = None \<and>
   fst (sweep_cycle demo_env_uploads demo_env_processed (demo_uploads, demo_processed))
     (u16 ''young.mp4'') = Some young_file \<and>
   snd (sweep_cycle demo_env_uploads demo_env_processed (demo_uploads, demo_processed))
     (u16 ''locked.mp4'') = Some old_file \<and>
   snd (sweep_cycle demo_env_uploads demo_env_processed (demo_uploads, demo_processed))
     (u16 ''old.mp3'') = None"
proof -
  have h1: "\<not> readdir_throws (faults demo_env_uploads)"
    by (simp add: demo_env_uploads_def no_faults_def)
  have h2: "dom demo_uploads \<subseteq> set (listing demo_env_uploads)"
    by (simp add: demo_env_uploads_def demo_uploads_def)
  have h3: "\<not> readdir_throws (faults demo_env_processed)"
    by (simp add: demo_env_processed_def locked_faults_def)
  have h4: "dom demo_processed \<subseteq> set (listing demo_env_processed)"
    by (simp add: demo_env_processed_def demo_processed_def)
  note t = sweep_evicts_exactly_old_files [OF h1 h2 h3 h4]
  have a: "evicted (faults demo_env_uploads) (now demo_env_uploads) demo_uploads
             (u16 ''old.mp4'')"
    using demo_names
    by (simp add: evicted_def demo_env_uploads_def demo_uploads_def no_faults_def old_file_def
                  MAX_FILE_AGE_MS_def)
  have b: "\<not> evicted (faults demo_env_uploads) (now demo_env_uploads) demo_uploads
             (u16 ''young.mp4'')"
    by (simp add: evicted_def demo_env_uploads_def demo_uploads_def no_faults_def
                  young_file_def MAX_FILE_AGE_MS_def)
  have c: "\<not> evicted (faults demo_env_processed) (now demo_env_processed) demo_processed
             (u16 ''locked.mp4'')"
    using demo_names
    by (simp add: evicted_def demo_env_processed_def demo_processed_def locked_faults_def)
  have d: "evicted (faults demo_env_processed) (now demo_env_processed) demo_processed
             (u16 ''old.mp3'')"
    using demo_names
    by (simp add: evicted_def demo_env_processed_def demo_processed_def locked_faults_def
                  old_file_def MAX_FILE_AGE_MS_def)
  have y: "demo_uploads (u16 ''young.mp4'') = Some young_file"
    by (simp add: demo_uploads_def)
  have l: "demo_processed (u16 ''locked.mp4'') = Some old_file"
    using demo_names by (simp add: demo_processed_def)
  from t [of "u16 ''old.mp4''"] t [of "u16 ''young.mp4''"] t [of "u16 ''locked.mp4''"]
    t [of "u16 ''old.mp3''"] a b c d y l h1 h2 h3 h4
  show ?thesis by simp
qed

section \<open>A failed job and its output file\<close>

text \<open>
  Claim C4, amended. When the engine signals an error, the job function answers with
  status 500 (unless the head was already sent), resolves, and leaves the processed
  directory as the engine left it: what the engine wrote at the output path is still
  there. Such a file goes away with the sweep, once its age exceeds the window.
\<close>

theorem failed_job_keeps_output:
  assumes "engine d = (Error, d')"
  shows "run_job engine headersSent d =
           (if headersSent then None else Some 500, Fulfilled, d') \<and>
         snd (snd (run_job engine headersSent d)) outputPath = d' outputPath \<and>
         (\<not> readdir_throws io \<and> dom d' \<subseteq> set files \<longrightarrow>
            cleanupOldFiles io t files (snd (snd (run_job engine headersSent d))) outputPath =
              (if evicted io t d' outputPath then None else d' outputPath))"
proof -
  have r: "run_job engine headersSent d =
             (if headersSent then None else Some 500, Fulfilled, d')"
    using assms by (simp add: run_job_def)
  then have s: "snd (snd (run_job engine headersSent d)) = d'" by simp
  show ?thesis
    unfolding s using r by (simp add: cleanupOldFiles_lookup)
qed

text \<open>
  The claim as stated fails: the engine writes part of the output and signals an error;
  after the handler has answered, the file is still in the directory. A call of
  \<open>safeDelete\<close> would have removed it.
\<close>

theorem failed_job_partial_output_remains:
  "fst (crashing_engine empty_dir) = Error \<and>
   fst (run_job crashing_engine False empty_dir) = Some 500 \<and>
   snd (snd (run_job crashing_engine False empty_dir)) (u16 ''filtered_1.mp4'')
     = Some partial_output \<and>
   safeDelete never_fails (u16 ''filtered_1.mp4'')
     (snd (snd (run_job crashing_engine False empty_dir))) (u16 ''filtered_1.mp4'') = None"
  by (simp add: crashing_engine_def run_job_def safeDelete_def never_fails_def empty_dir_def)

theorem failed_job_keeps_output_witness:
  "crashing_engine Map.empty = (Error, [u16 ''filtered_1.mp4'' \<mapsto> partial_output]) \<and>
   run_job crashing_engine False Map.empty =
     (Some 500, Fulfilled, [u16 ''filtered_1.mp4'' \<mapsto> partial_output]) \<and>
   \<not> readdir_throws no_faults \<and>
   dom [u16 ''filtered_1.mp4'' \<mapsto> partial_output] \<subseteq> set [u16 ''filtered_1.mp4''] \<and>
   cleanupOldFiles no_faults 2000 [u16 ''filtered_1.mp4'']
     (snd (snd (run_job crashing_engine False Map.empty))) (u16 ''filtered_1.mp4'')
     = Some partial_output"
proof -
  have h: "crashing_engine Map.empty = (Error, [u16 ''filtered_1.mp4'' \<mapsto> partial_output])"
    by (simp add: crashing_engine_def)
  have f: "\<not> readdir_throws no_faults" by (simp add: no_faults_def)
  have e: "\<not> evicted no_faults 2000 [u16 ''filtered_1.mp4'' \<mapsto> partial_output]
             (u16 ''filtered_1.mp4'')"
    by (simp add: evicted_def partial_output_def MAX_FILE_AGE_MS_def)
  from failed_job_keeps_output [where engine = crashing_engine and d = Map.empty
      and headersSent = False and io = no_faults and files = "[u16 ''filtered_1.mp4'']"
      and t = 2000 and outputPath = "u16 ''filtered_1.mp4''", OF h] h f e
  show ?thesis by auto
qed

section \<open>The trim duration\<close>

text \<open>
  Claim C7, amended. For a trim request on an existing upload with start \<open>s\<close> and end \<open>e\<close>
  (each \<open>parseFloat(field) || 0\<close>), the queue-based handler computes the duration
  \<open>max(0, e - s)\<close>, which is never negative and is \<open>0\<close> when \<open>e \<le> s\<close>; the job seeks to \<open>s\<close> and
  passes the duration to the engine only when it is positive, so for \<open>e \<le> s\<close> the engine
  gets no duration at all.
\<close>

theorem trim_duration_clamped:
  assumes "present filename" and "existsSync (the filename)"
    and "s = or_zero (parseFloat pf startTime)" and "e = or_zero (parseFloat pf endTime)"
  shows "post_trim existsSync pf filename startTime endTime =
           Enqueue (TrimJob s (if s < e then Some (e - s) else None)) \<and>
         trim_duration s e = max 0 (e - s) \<and> 0 \<le> trim_duration s e \<and>
         (e \<le> s \<longrightarrow> trim_duration s e = 0)"
  using assms by (simp add: post_trim_def trim_duration_def Let_def)

theorem trim_duration_clamped_witness:
  "present (Some (u16 ''in.mp4'')) \<and> always_exists (the (Some (u16 ''in.mp4''))) \<and>
   post_trim always_exists no_parse (Some (u16 ''in.mp4'')) (NumV (Num 2)) (NumV (Num 5)) =
     Enqueue (TrimJob 2 (Some 3)) \<and>
   trim_duration 2 5 = 3 \<and>
   post_trim always_exists no_parse (Some (u16 ''in.mp4'')) (NumV (Num 5)) Undefined =
     Enqueue (TrimJob 5 None) \<and>
   trim_duration 5 0 = 0"
proof -
  have h1: "present (Some (u16 ''in.mp4''))" by (simp add: present_def u16_def)
  have h2: "always_exists (the (Some (u16 ''in.mp4'')))" by (simp add: always_exists_def)
  have a: "(2::real) = or_zero (parseFloat no_parse (NumV (Num 2)))"
    and b: "(5::real) = or_zero (parseFloat no_parse (NumV (Num 5)))"
    and c: "(0::real) = or_zero (parseFloat no_parse Undefined)"
    by simp_all
  from trim_duration_clamped [where existsSync = always_exists, OF h1 h2 a b]
    trim_duration_clamped [where existsSync = always_exists, OF h1 h2 b c] h1 h2
  show ?thesis by simp
qed

text \<open>
  The claim as stated fails for \<open>e \<le> s\<close>: with start 5 and end 2 the clamped duration is
  \<open>0\<close>, and the job of the queue-based handler carries no duration for the engine. The
  legacy handler passes the difference as it is, here \<open>-3\<close>.
\<close>

theorem trim_zero_duration_not_passed:
  "post_trim always_exists no_parse (Some (u16 ''in.mp4'')) (NumV (Num 5)) (NumV (Num 2)) =
     Enqueue (TrimJob 5 None) \<and>
   TrimJob 5 None \<noteq> TrimJob 5 (Some (max 0 (2 - 5))) \<and>
   legacy_trim_duration 5 2 = Some (- 3)"
  by (simp add: post_trim_def trim_duration_def present_def always_exists_def u16_def
                legacy_trim_duration_def)

section \<open>Validation before admission\<close>

lemma filterMap_get_unknown:
  assumes "k \<notin> set (map (u16 \<circ> fst) filterMap)" and "k \<notin> set (map u16 Object_prototype_names)"
  shows "filterMap_get k = PropUndefined"
proof -
  have "map_of (map (\<lambda>(n, v). (u16 n, u16 v)) filterMap) k = None"
    using assms(1) by (simp add: map_of_eq_None_iff image_image split_def comp_def)
  then show ?thesis using assms(2) by (simp add: filterMap_get_def)
qed

lemma post_filter_unknown:
  assumes "present filename" and "present filterName"
    and "the filterName \<notin> set (map (u16 \<circ> fst) filterMap)"
    and "the filterName \<notin> set (map u16 Object_prototype_names)"
  shows "post_filter existsSync filename filterName =
           Respond (if existsSync (the filename) then 400 else 404)"
  using assms(1,2) filterMap_get_unknown [OF assms(3,4)] by (simp add: post_filter_def)

lemma post_audio_unknown:
  assumes "present filename" and "present operation"
    and "the operation \<notin> set (map u16 audio_operations)"
  shows "post_audio existsSync pf probe filename operation volume =
           Respond (if existsSync (the filename) then 400 else 404)"
  using assms by (simp add: post_audio_def audio_operations_def)

text \<open>
  Claim C8, amended. A request that lacks a required field (for a merge: that names
  fewer than two files) is answered with 400. A filter request whose filter name is neither one of the twelve names of \<open>filterMap\<close> nor
  the name of a property inherited from \<open>Object.prototype\<close>, and an audio request whose
  operation is none of the five, is answered with 400 when the named upload exists and
  with 404 when it does not. In all these cases no job is enqueued: the state of the
  queue is the same after the request.
\<close>

theorem validation_rejects_before_admission:
  "(\<not> present filename \<or> \<not> present filterName \<longrightarrow>
      post_filter existsSync filename filterName = Respond 400 \<and>
      admit N j (post_filter existsSync filename filterName) s = s) \<and>
   (present filename \<and> present filterName \<and>
    the filterName \<notin> set (map (u16 \<circ> fst) filterMap) \<and>
    the filterName \<notin> set (map u16 Object_prototype_names) \<longrightarrow>
      post_filter existsSync filename filterName =
        Respond (if existsSync (the filename) then 400 else 404) \<and>
      admit N j (post_filter existsSync filename filterName) s = s) \<and>
   (\<not> present filename \<or> \<not> present operation \<longrightarrow>
      post_audio existsSync pf probe filename operation volume = Respond 400 \<and>
      admit N j (post_audio existsSync pf probe filename operation volume) s = s) \<and>
   (present filename \<and> present operation \<and>
    the operation \<notin> set (map u16 audio_operations) \<longrightarrow>
      post_audio existsSync pf probe filename operation volume =
        Respond (if existsSync (the filename) then 400 else 404) \<and>
      admit N j (post_audio existsSync pf probe filename operation volume) s = s) \<and>
   (\<not> present filename \<longrightarrow>
      post_trim existsSync pf filename startTime endTime = Respond 400 \<and>
      admit N j (post_trim existsSync pf filename startTime endTime) s = s) \<and>
   (\<not> present filename \<or> \<not> present overlay \<longrightarrow>
      post_text existsSync fontFile filename overlay fontSize fontColor x y fromTime toTime =
        Respond 400 \<and>
      admit N j (post_text existsSync fontFile filename overlay fontSize fontColor x y fromTime toTime) s
        = s) \<and>
   (filenames = None \<or> length (the filenames) < 2 \<longrightarrow>
      post_merge existsSync filenames = Respond 400 \<and>
      admit N j (post_merge existsSync filenames) s = s)"
proof -
  have a: "\<not> present filename \<or> \<not> present filterName \<longrightarrow>
      post_filter existsSync filename filterName = Respond 400 \<and>
      admit N j (post_filter existsSync filename filterName) s = s"
    by (auto simp: post_filter_def)
  have b: "present filename \<and> present filterName \<and>
    the filterName \<notin> set (map (u16 \<circ> fst) filterMap) \<and>
    the filterName \<notin> set (map u16 Object_prototype_names) \<longrightarrow>
      post_filter existsSync filename filterName =
        Respond (if existsSync (the filename) then 400 else 404) \<and>
      admit N j (post_filter existsSync filename filterName) s = s"
    by (simp add: post_filter_unknown)
  have c: "\<not> present filename \<or> \<not> present operation \<longrightarrow>
      post_audio existsSync pf probe filename operation volume = Respond 400 \<and>
      admit N j (post_audio existsSync pf probe filename operation volume) s = s"
    by (auto simp: post_audio_def)
  have d: "present filename \<and> present operation \<and>
    the operation \<notin> set (map u16 audio_operations) \<longrightarrow>
      post_audio existsSync pf probe filename operation volume =
        Respond (if existsSync (the filename) then 400 else 404) \<and>
      admit N j (post_audio existsSync pf probe filename operation volume) s = s"
    by (simp add: post_audio_unknown)
  have e: "\<not> present filename \<longrightarrow>
      post_trim existsSync pf filename startTime endTime = Respond 400 \<and>
      admit N j (post_trim existsSync pf filename startTime endTime) s = s"
    by (simp add: post_trim_def)
  have f: "\<not> present filename \<or> \<not> present overlay \<longrightarrow>
      post_text existsSync fontFile filename overlay fontSize fontColor x y fromTime toTime =
        Respond 400 \<and>
      admit N j (post_text existsSync fontFile filename overlay fontSize fontColor x y fromTime toTime) s
        = s"
    by (auto simp: post_text_def)
  have g: "filenames = None \<or> length (the filenames) < 2 \<longrightarrow>
      post_merge existsSync filenames = Respond 400 \<and>
      admit N j (post_merge existsSync filenames) s = s"
    by (auto simp: post_merge_def)
  from a b c d e f g show ?thesis by blast
qed

lemma bogus_unknown:
  "the (Some (u16 ''bogus'')) \<notin> set (map (u16 \<circ> fst) filterMap)"
  "the (Some (u16 ''bogus'')) \<notin> set (map u16 Object_prototype_names)"
  "the (Some (u16 ''bogus'')) \<notin> set (map u16 audio_operations)"
  by (simp_all add: filterMap_def Object_prototype_names_def audio_operations_def u16_def)

theorem validation_rejects_before_admission_witness:
  "\<not> present None \<and> present (Some (u16 ''in.mp4'')) \<and> present (Some (u16 ''bogus'')) \<and>
   the (Some (u16 ''bogus'')) \<notin> set (map (u16 \<circ> fst) filterMap) \<and>
   the (Some (u16 ''bogus'')) \<notin> set (map u16 Object_prototype_names) \<and>
   the (Some (u16 ''bogus'')) \<notin> set (map u16 audio_operations) \<and>
   post_filter always_exists (Some (u16 ''in.mp4'')) None = Respond 400 \<and>
   post_filter always_exists (Some (u16 ''in.mp4'')) (Some (u16 ''bogus'')) = Respond 400 \<and>
   admit MAX_CONCURRENT_JOBS 3
     (post_filter always_exists (Some (u16 ''in.mp4'')) (Some (u16 ''bogus''))) demo_state
     = demo_state \<and>
   post_audio always_exists no_parse None None (Some (u16 ''bogus'')) Undefined
     = Respond 400 \<and>
   post_audio always_exists no_parse None (Some (u16 ''in.mp4'')) (Some (u16 ''bogus''))
     Undefined = Respond 400 \<and>
   post_trim always_exists no_parse None Undefined Undefined = Respond 400 \<and>
   post_text always_exists None None None None None None None None None = Respond 400 \<and>
   post_merge always_exists None = Respond 400"
proof -
  have p: "\<not> present None" "present (Some (u16 ''in.mp4''))" "present (Some (u16 ''bogus''))"
    by (simp_all add: present_def u16_def)
  have x: "always_exists (the (Some (u16 ''in.mp4'')))" by (simp add: always_exists_def)
  note t1 = validation_rejects_before_admission [where filename = "Some (u16 ''in.mp4'')"
      and filterName = None and operation = "Some (u16 ''bogus'')"
      and existsSync = always_exists and pf = no_parse and probe = None and volume = Undefined
      and N = MAX_CONCURRENT_JOBS and j = 3 and s = demo_state
      and startTime = Undefined and endTime = Undefined
      and overlay = None and fontFile = None and fontSize = None and fontColor = None
      and x = None and y = None and fromTime = None and toTime = None and filenames = None ]
  note t2 = validation_rejects_before_admission [where filename = "Some (u16 ''in.mp4'')"
      and filterName = "Some (u16 ''bogus'')" and operation = None
      and existsSync = always_exists and pf = no_parse and probe = None and volume = Undefined
      and N = MAX_CONCURRENT_JOBS and j = 3 and s = demo_state
      and startTime = Undefined and endTime = Undefined
      and overlay = None and fontFile = None and fontSize = None and fontColor = None
      and x = None and y = None and fromTime = None and toTime = None and filenames = None ]
  note t3 = validation_rejects_before_admission [where filename = None
      and filterName = None and operation = "Some (u16 ''bogus'')"
      and existsSync = always_exists and pf = no_parse and probe = None and volume = Undefined
      and N = MAX_CONCURRENT_JOBS and j = 3 and s = demo_state
      and startTime = Undefined and endTime = Undefined
      and overlay = None and fontFile = None and fontSize = None and fontColor = None
      and x = None and y = None and fromTime = None and toTime = None and filenames = None ]
  from t1 t2 t3 p x bogus_unknown show ?thesis by auto
qed

text \<open>
  The claim as stated fails where the named upload does not exist: the existence check
  comes before the look-up of the filter, and the answer is 404.
\<close>

theorem unknown_filter_missing_upload_404:
  "post_filter never_exists (Some (u16 ''gone.mp4'')) (Some (u16 ''bogus'')) = Respond 404 \<and>
   post_audio never_exists no_parse None (Some (u16 ''gone.mp4'')) (Some (u16 ''bogus''))
     Undefined = Respond 404"
  by (simp add: post_filter_def post_audio_def present_def never_exists_def u16_def)

text \<open>
  A filter name that \<open>filterMap\<close> inherits passes the test and the job is enqueued.
\<close>

lemma inherited_filter_name_enqueued:
  "post_filter always_exists (Some (u16 ''in.mp4'')) (Some (u16 ''constructor'')) =
     Enqueue (FilterJob PropInherited)"
  by (simp add: post_filter_def present_def always_exists_def filterMap_get_def filterMap_def
                Object_prototype_names_def u16_def)

section \<open>The fade-out and the probe\<close>

text \<open>
  Claim C10, amended. A fade-out request on an existing upload is enqueued whatever the
  probe returned. The fade starts at 27 when the probe failed, when the metadata has no
  format, and when the duration field is absent, zero, \<open>NaN\<close> or the empty string: the
  default duration 30 is used. With a number \<open>d\<close> other than zero, or a non-empty string
  that \<open>parseFloat\<close> reads as the number \<open>d\<close>, the fade starts at \<open>max(0, d - 3)\<close>. Nothing
  is said about a string that \<open>parseFloat\<close> cannot read.
\<close>

theorem fadeOut_probe_default:
  assumes "present filename" and "existsSync (the filename)"
  shows "post_audio existsSync pf probe filename (Some (u16 ''fadeOut'')) volume =
           Enqueue (FadeOutJob (fadeStart pf probe)) \<and>
         admit N j (post_audio existsSync pf probe filename (Some (u16 ''fadeOut'')) volume) s =
           enqueueJob N j s \<and>
         fadeStart pf None = Num 27 \<and>
         fadeStart pf (Some \<lparr>format = None\<rparr>) = Num 27 \<and>
         fadeStart pf (Some \<lparr>format = Some \<lparr>duration = Undefined\<rparr>\<rparr>) = Num 27 \<and>
         fadeStart pf (Some \<lparr>format = Some \<lparr>duration = NumV NaN\<rparr>\<rparr>) = Num 27 \<and>
         fadeStart pf (Some \<lparr>format = Some \<lparr>duration = StrV []\<rparr>\<rparr>) = Num 27 \<and>
         fadeStart pf (Some \<lparr>format = Some \<lparr>duration = NumV (Num 0)\<rparr>\<rparr>) = Num 27 \<and>
         (d \<noteq> 0 \<longrightarrow>
            fadeStart pf (Some \<lparr>format = Some \<lparr>duration = NumV (Num d)\<rparr>\<rparr>) =
              Num (max 0 (d - 3))) \<and>
         (str \<noteq> [] \<and> pf str = Num r \<longrightarrow>
            fadeStart pf (Some \<lparr>format = Some \<lparr>duration = StrV str\<rparr>\<rparr>) =
              Num (max 0 (r - 3)))"
proof -
  have op: "u16 ''fadeOut'' \<noteq> u16 ''extract''" "u16 ''fadeOut'' \<noteq> []"
    by (simp_all add: u16_def)
  have a: "post_audio existsSync pf probe filename (Some (u16 ''fadeOut'')) volume =
           Enqueue (FadeOutJob (fadeStart pf probe))"
    using assms op by (simp add: post_audio_def present_def)
  have b: "admit N j (post_audio existsSync pf probe filename (Some (u16 ''fadeOut'')) volume) s =
           enqueueJob N j s"
    by (simp add: a)
  have c: "fadeStart pf None = Num 27"
    "fadeStart pf (Some \<lparr>format = None\<rparr>) = Num 27"
    "fadeStart pf (Some \<lparr>format = Some \<lparr>duration = Undefined\<rparr>\<rparr>) = Num 27"
    "fadeStart pf (Some \<lparr>format = Some \<lparr>duration = NumV NaN\<rparr>\<rparr>) = Num 27"
    "fadeStart pf (Some \<lparr>format = Some \<lparr>duration = StrV []\<rparr>\<rparr>) = Num 27"
    "fadeStart pf (Some \<lparr>format = Some \<lparr>duration = NumV (Num 0)\<rparr>\<rparr>) = Num 27"
    by (simp_all add: fadeStart_def fadeOut_duration_def)
  have d: "d \<noteq> 0 \<longrightarrow>
            fadeStart pf (Some \<lparr>format = Some \<lparr>duration = NumV (Num d)\<rparr>\<rparr>) =
              Num (max 0 (d - 3))"
    by (simp add: fadeStart_def fadeOut_duration_def)
  have e: "str \<noteq> [] \<and> pf str = Num r \<longrightarrow>
            fadeStart pf (Some \<lparr>format = Some \<lparr>duration = StrV str\<rparr>\<rparr>) =
              Num (max 0 (r - 3))"
    by (simp add: fadeStart_def fadeOut_duration_def)
  from a b c d e show ?thesis by blast
qed

theorem fadeOut_probe_default_witness:
  "present (Some (u16 ''in.mp4'')) \<and> always_exists (the (Some (u16 ''in.mp4''))) \<and>
   post_audio always_exists reads_ten None (Some (u16 ''in.mp4'')) (Some (u16 ''fadeOut''))
     Undefined = Enqueue (FadeOutJob (Num 27)) \<and>
   (10::real) \<noteq> 0 \<and>
   fadeStart reads_ten (Some \<lparr>format = Some \<lparr>duration = NumV (Num 10)\<rparr>\<rparr>) = Num 7 \<and>
   u16 ''1e1'' \<noteq> [] \<and> reads_ten (u16 ''1e1'') = Num 10 \<and>
   fadeStart reads_ten (Some \<lparr>format = Some \<lparr>duration = StrV (u16 ''1e1'')\<rparr>\<rparr>) = Num 7"
proof -
  have h1: "present (Some (u16 ''in.mp4''))" by (simp add: present_def u16_def)
  have h2: "always_exists (the (Some (u16 ''in.mp4'')))" by (simp add: always_exists_def)
  have h3: "u16 ''1e1'' \<noteq> []" by (simp add: u16_def)
  have h4: "reads_ten (u16 ''1e1'') = Num 10" by (simp add: reads_ten_def)
  from fadeOut_probe_default [where existsSync = always_exists and pf = reads_ten
      and probe = None and volume = Undefined and d = 10 and str = "u16 ''1e1''"
      and r = 10, OF h1 h2]
    h1 h2 h3 h4
  show ?thesis by simp
qed

text \<open>
  The claim as stated fails for a probed duration of zero: the default 30 is used and
  the fade starts at 27, not at \<open>max(0, 0 - 3) = 0\<close>.
\<close>

theorem fadeOut_zero_duration_uses_default:
  "fadeStart no_parse zero_duration_probe = Num 27 \<and>
   fadeStart no_parse zero_duration_probe \<noteq> Num (max 0 (0 - 3))"
  by (simp add: fadeStart_def fadeOut_duration_def zero_duration_probe_def)

end
